theory Spec2Isabelle
  imports Main "HOL-Library.AList"
begin

section \<open>Decoded-data container (dataobjects.py)\<close>

text \<open>
  A \<open>DataElement\<close> carries a tag, a decoded value, an optional binding to the schema
  element that typed it (\<open>xsd_element\<close>, of which only the attribute \<open>type\<close> is
  read here), an optional explicit type override (\<open>_xsd_type\<close>) and the ordered list
  of its children (\<open>_children\<close>). Python's \<open>None\<close> is \<open>None\<close> of an option type.
  The types of schema components are opaque and kept as a type parameter.
\<close>

record 't xsd_element_binding =
  type_attr :: "'t option"

datatype 't data_element =
  DataElement
    (data_tag: string)
    (data_value: "string option")
    (xsd_element: "'t xsd_element_binding option")
    (xsd_type_field: "'t option")
    (data_children: "'t data_element list")

text \<open>The property \<open>xsd_type\<close>: the override when it is not \<open>None\<close>, else the type of
  the bound element when there is one, else (falling off the end) \<open>None\<close>.\<close>

definition xsd_type :: "'t data_element \<Rightarrow> 't option" where
  "xsd_type self =
     (if xsd_type_field self \<noteq> None then xsd_type_field self
      else if xsd_element self \<noteq> None then type_attr (the (xsd_element self))
      else None)"

text \<open>The setter of \<open>xsd_type\<close> assigns \<open>_xsd_type\<close> and nothing else.\<close>

fun set_xsd_type :: "'t data_element \<Rightarrow> 't option \<Rightarrow> 't data_element" where
  "set_xsd_type (DataElement tg v xe xt cs) new_type = DataElement tg v xe new_type cs"

text \<open>
  \<open>iter(tag=None)\<close>: a generator, modelled by the list of what it yields. An absent
  tag is replaced by \<open>'*'\<close>; the element itself is yielded when the tag is \<open>'*'\<close> or equals
  its own, then every child is iterated with the same tag. (The selectors of the tag
  and of the children are \<open>data_tag\<close> and \<open>data_children\<close>, since \<open>tag\<close> names the tag
  of a document element below.)
\<close>

fun iter_tag :: "'t data_element \<Rightarrow> string \<Rightarrow> 't data_element list" where
  "iter_tag (DataElement tg v xe xt cs) t =
     (if t = ''*'' \<or> t = tg then [DataElement tg v xe xt cs] else [])
       @ concat (map (\<lambda>child. iter_tag child t) cs)"

definition iter :: "'t data_element \<Rightarrow> string option \<Rightarrow> 't data_element list" where
  "iter self tag_arg = iter_tag self (case tag_arg of None \<Rightarrow> ''*'' | Some t \<Rightarrow> t)"

section \<open>Documents, schemas and map entries (namespaces.py)\<close>

text \<open>
  An element of a parsed document exposes its \<open>tag\<close>, its attributes and its
  subelements. The path query \<open>iterfind(path, namespaces)\<close> belongs to the document
  library, not to this repository: it is a parameter of everything that scans, giving the
  finite sequence of the elements found.
\<close>

datatype xml_elem =
  Element (tag: string) (attrib: "(string \<times> string) list") (subelements: "xml_elem list")

type_synonym nsmap = "(string \<times> string) list"

type_synonym iterfind = "xml_elem \<Rightarrow> string \<Rightarrow> nsmap \<Rightarrow> xml_elem list"

subsection \<open>Tag Scanner\<close>

text \<open>
  \<open>create_iterfind_by_tag(tag)\<close> returns \<open>iterfind_function(elements, path=None,
  namespaces=None)\<close>. The argument is a list of elements or one element
  (\<open>isinstance(elements, list)\<close>); \<open>path or tag\<close> is the tag when the path is \<open>None\<close> or
  empty, \<open>namespaces or {}\<close> the empty mapping when there is none. The generator is the
  list of what it yields: in the list branch the source yields \<open>_elem\<close> (here \<open>outer\<close>), the element
  of the list that is being searched, once for every element found with the tag; in the
  other branch it yields the element found.
\<close>

datatype scan_input = One xml_elem | Many "xml_elem list"

definition path_or_tag :: "string option \<Rightarrow> string \<Rightarrow> string" where
  "path_or_tag path tg = (case path of None \<Rightarrow> tg | Some p \<Rightarrow> if p = [] then tg else p)"

definition namespaces_or_empty :: "nsmap option \<Rightarrow> nsmap" where
  "namespaces_or_empty namespaces = (case namespaces of None \<Rightarrow> [] | Some n \<Rightarrow> n)"

definition create_iterfind_by_tag ::
  "iterfind \<Rightarrow> string \<Rightarrow> scan_input \<Rightarrow> string option \<Rightarrow> nsmap option \<Rightarrow> xml_elem list" where
  "create_iterfind_by_tag query tg elements path namespaces =
     (case elements of
        Many els \<Rightarrow>
          concat (map (\<lambda>outer.
            concat (map (\<lambda>el. if tag el = tg then [outer] else [])
              (query outer (path_or_tag path tg) (namespaces_or_empty namespaces)))) els)
      | One e \<Rightarrow>
          concat (map (\<lambda>el. if tag el = tg then [el] else [])
            (query e (path_or_tag path tg) (namespaces_or_empty namespaces))))"

subsection \<open>Schemas, instances, entries of a component map\<close>

text \<open>
  A schema document exposes \<open>root\<close>, \<open>target_namespace\<close> and \<open>uri\<close>; \<open>schema_id\<close> stands
  for the identity of the object. Its flag \<open>built\<close> is mutable and shared by every
  reference to the schema, so it lives in a store of its own, \<open>xml_schema \<Rightarrow> bool\<close>.

  A qualified name is the pair of a namespace URI and a local name. The helpers
  \<open>get_qname\<close>, \<open>get_namespace\<close> and \<open>local_name\<close> are imported by the source from modules
  that are not part of it.
\<close>

record xml_schema =
  schema_id :: nat
  uri :: string
  target_namespace :: string
  root :: xml_elem

type_synonym qname = "string \<times> string"

text \<open>Modelled from the spec: \<open>get_qname\<close> of the module \<open>qnames\<close>; a qualified name is
  a namespace URI plus a local name.\<close>

definition get_qname :: "string \<Rightarrow> string \<Rightarrow> qname" where
  "get_qname ns name = (ns, name)"

text \<open>Modelled from the spec: \<open>get_namespace\<close> of the module \<open>utils\<close>, the namespace URI
  of a qualified name.\<close>

definition get_namespace :: "qname \<Rightarrow> string" where
  "get_namespace k = fst k"

text \<open>Modelled from the spec: \<open>local_name\<close> of the module \<open>qnames\<close>, the local part of a
  qualified name.\<close>

definition local_name :: "qname \<Rightarrow> string" where
  "local_name k = snd k"

text \<open>
  A built component (an instance of \<open>XsdBase\<close>, a class of a module that is not part of
  the source) is read here through its attributes \<open>elem\<close> (possibly \<open>None\<close>) and \<open>schema\<close>
  only; \<open>ident\<close> stands for the rest of the object.

  A value of a component map is what \<open>isinstance\<close> tells apart in the builder: an
  \<open>XsdBase\<close> instance, a tuple \<open>(elem, schema)\<close>, a list (whose items are instances,
  tuples, or anything else), or anything else. An \<open>XsdBase\<close> instance is taken to be
  neither unpackable into two values nor to have an \<open>append\<close> method.
\<close>

record xsd_base =
  elem :: "xml_elem option"
  schema :: xml_schema
  ident :: nat

datatype link = Inst xsd_base | Raw xml_elem xml_schema | Junk string

datatype entry = Resolved xsd_base | Single xml_elem xml_schema | Chain "link list" | Other string

text \<open>A component map is a Python \<open>dict\<close>: an association list read with \<open>map_of\<close> and
  written with \<open>AList.update\<close> (which replaces the value of a key that is present and
  appends a new key at the end).\<close>

type_synonym xsd_map = "(qname \<times> entry) list"

datatype error =
    XMLSchemaTypeError string
  | XMLSchemaLookupError string
  | XMLSchemaParseError string "xml_elem option"
  | PyError string

text \<open>\<open>str(err)\<close>, the message of an exception.\<close>

fun str_of :: "error \<Rightarrow> string" where
  "str_of (XMLSchemaTypeError m) = m"
| "str_of (XMLSchemaLookupError m) = m"
| "str_of (XMLSchemaParseError m e) = m"
| "str_of (PyError m) = m"

subsection \<open>Declaration Builder\<close>

text \<open>
  The factory is external. A call \<open>factory_function(elem, schema, instance,
  is_global=True, **kwargs)\<close> returns the pair of a qualified name and an instance, or
  raises; it may read the map that is being built and may read and change anything else
  (the state \<open>'s\<close>). The call for a tuple passes no instance argument, which is modelled
  as \<open>None\<close>, the value the call for the first link of a list passes.

  The local variables \<open>elem\<close> and \<open>res_qname\<close> of \<open>build_xsd_map\<close> keep their values from
  one key to the next and from one pass to the next, and are read in the handler and in
  the \<open>else\<close> clause: they are part of the state (\<open>elem_var = None\<close> is the unbound
  variable, \<open>Some None\<close> the value \<open>None\<close>). \<open>calls\<close> is not a variable of the source: it
  records every call of the factory, with the key it was made for, its arguments and
  what it returned or raised.
\<close>

type_synonym 's factory =
  "xsd_map \<Rightarrow> 's \<Rightarrow> xml_elem \<Rightarrow> xml_schema \<Rightarrow> xsd_base option \<Rightarrow> (error + qname \<times> xsd_base) \<times> 's"

type_synonym call =
  "qname \<times> xml_elem \<times> xml_schema \<times> xsd_base option \<times> (error + qname \<times> xsd_base)"

record 's build_state =
  xsd_globals :: xsd_map
  world :: 's
  calls :: "call list"
  i_var :: nat
  missing :: "qname list"
  errors :: "error list"
  elem_var :: "xml_elem option option"
  res_qname_var :: "qname option"

text \<open>What the body of the \<open>try\<close> does: it leaves by \<open>continue\<close>, raises, or runs to its
  end with a value of \<open>xsd_instance\<close>.\<close>

datatype try_result = Continue | Raised error | Completed "xsd_base option"

definition call_factory ::
  "'s factory \<Rightarrow> qname \<Rightarrow> xml_elem \<Rightarrow> xml_schema \<Rightarrow> xsd_base option \<Rightarrow> 's build_state
     \<Rightarrow> (error + xsd_base) \<times> 's build_state" where
  "call_factory fac q e s prev st =
     (case fac (xsd_globals st) (world st) e s prev of
        (Inl err, w) \<Rightarrow>
          (Inl err, st\<lparr>world := w, calls := calls st @ [(q, e, s, prev, Inl err)]\<rparr>)
      | (Inr (rq, x), w) \<Rightarrow>
          (Inr x, st\<lparr>world := w, calls := calls st @ [(q, e, s, prev, Inr (rq, x))],
                    res_qname_var := Some rq\<rparr>))"

text \<open>The loop \<open>for k in range(start, len(obj))\<close> over the links still to walk;
  \<open>obj\<close> is the whole list, whose first item each successful call overwrites
  (\<open>obj[0] = xsd_instance\<close>), in the map too since the list is the map's value. An item
  that is no tuple cannot be unpacked.\<close>

fun walk_chain ::
  "'s factory \<Rightarrow> string \<Rightarrow> qname \<Rightarrow> link list \<Rightarrow> link list \<Rightarrow> xsd_base option \<Rightarrow> 's build_state
     \<Rightarrow> try_result \<times> 's build_state" where
  "walk_chain fac target q obj [] inst st = (Completed inst, st)"
| "walk_chain fac target q obj (Inst x # rest) inst st = (Raised (PyError ''TypeError''), st)"
| "walk_chain fac target q obj (Junk d # rest) inst st = (Raised (PyError ''TypeError''), st)"
| "walk_chain fac target q obj (Raw e s # rest) inst st =
     (let st1 = st\<lparr>elem_var := Some (Some e)\<rparr> in
      if tag e \<noteq> target then (Completed inst, st1)
      else (case call_factory fac q e s inst st1 of
              (Inl err, st2) \<Rightarrow> (Raised err, st2)
            | (Inr x, st2) \<Rightarrow>
                (let obj' = obj[0 := Inst x] in
                 walk_chain fac target q obj' rest (Some x)
                   (st2\<lparr>xsd_globals := AList.update q (Chain obj') (xsd_globals st2)\<rparr>))))"

definition try_part ::
  "'s factory \<Rightarrow> string \<Rightarrow> (xml_schema \<Rightarrow> bool) \<Rightarrow> qname \<Rightarrow> entry \<Rightarrow> 's build_state
     \<Rightarrow> try_result \<times> 's build_state" where
  "try_part fac target built q obj st =
     (case obj of
        Resolved b \<Rightarrow>
          (let st1 = st\<lparr>elem_var := Some (elem b)\<rparr> in
           case elem b of
             None \<Rightarrow> (Continue, st1)
           | Some e \<Rightarrow>
               if tag e \<noteq> target \<or> built (schema b) then (Continue, st1)
               else (case call_factory fac q e (schema b) (Some b) st1 of
                       (Inl err, st2) \<Rightarrow> (Raised err, st2)
                     | (Inr x, st2) \<Rightarrow> (Completed (Some x), st2)))
      | Single e s \<Rightarrow>
          (let st1 = st\<lparr>elem_var := Some (Some e)\<rparr> in
           if tag e \<noteq> target then (Continue, st1)
           else (case call_factory fac q e s None st1 of
                   (Inl err, st2) \<Rightarrow> (Raised err, st2)
                 | (Inr x, st2) \<Rightarrow> (Completed (Some x), st2)))
      | Chain links \<Rightarrow>
          (case links of
             [] \<Rightarrow> (Raised (PyError ''IndexError''), st)
           | Inst x # rest \<Rightarrow> walk_chain fac target q links rest (Some x) st
           | Raw e s # rest \<Rightarrow> walk_chain fac target q links links None st
           | Junk d # rest \<Rightarrow> walk_chain fac target q links links None st)
      | Other d \<Rightarrow> (Raised (XMLSchemaTypeError (''unexpected type '' @ d)), st))"

text \<open>Lines 152 to 154: the key is deferred, and a lookup failure is recorded.\<close>

definition defer_key :: "qname \<Rightarrow> error \<Rightarrow> 's build_state \<Rightarrow> 's build_state" where
  "defer_key q err st =
     st\<lparr>missing := missing st @ [q],
        errors := (case err of XMLSchemaLookupError m \<Rightarrow> errors st @ [err] | _ \<Rightarrow> errors st)\<rparr>"

text \<open>\<open>raise errors[0] if errors else XMLSchemaParseError(message=str(err), elem=elem)\<close>\<close>

definition exhaustion_error :: "error list \<Rightarrow> error \<Rightarrow> xml_elem \<Rightarrow> error" where
  "exhaustion_error errs err e =
     (case errs of first # _ \<Rightarrow> first | [] \<Rightarrow> XMLSchemaParseError (str_of err) (Some e))"

text \<open>The handler of \<open>XMLSchemaTypeError\<close> and \<open>XMLSchemaLookupError\<close>. Its first statement
  evaluates \<open>elem.attrib\<close>, which fails when \<open>elem\<close> is unbound or \<open>None\<close>.\<close>

definition except_clause ::
  "nat \<Rightarrow> qname \<Rightarrow> error \<Rightarrow> 's build_state \<Rightarrow> error option \<times> 's build_state" where
  "except_clause errors_counter q err st =
     (case elem_var st of
        None \<Rightarrow> (Some (PyError ''UnboundLocalError''), st)
      | Some None \<Rightarrow> (Some (PyError ''AttributeError''), st)
      | Some (Some e) \<Rightarrow>
          (let st1 = defer_key q err st in
           if length (missing st1) = errors_counter
           then (Some (exhaustion_error (errors st1) err e), st1)
           else (None, st1)))"

definition else_clause ::
  "string \<Rightarrow> qname \<Rightarrow> xsd_base option \<Rightarrow> 's build_state \<Rightarrow> error option \<times> 's build_state" where
  "else_clause target q inst st =
     (case elem_var st of
        None \<Rightarrow> (Some (PyError ''UnboundLocalError''), st)
      | Some None \<Rightarrow> (Some (PyError ''AttributeError''), st)
      | Some (Some e) \<Rightarrow>
          if tag e \<noteq> target then (None, st)
          else (case res_qname_var st of
                  None \<Rightarrow> (Some (PyError ''UnboundLocalError''), st)
                | Some rq \<Rightarrow>
                    if rq \<noteq> q then (Some (XMLSchemaParseError ''wrong result name'' None), st)
                    else (None, st\<lparr>xsd_globals :=
                            AList.update q (case inst of Some x \<Rightarrow> Resolved x | None \<Rightarrow> Other ''None'')
                              (xsd_globals st)\<rparr>)))"

definition is_caught :: "error \<Rightarrow> bool" where
  "is_caught err =
     (case err of XMLSchemaTypeError m \<Rightarrow> True | XMLSchemaLookupError m \<Rightarrow> True | _ \<Rightarrow> False)"

text \<open>One iteration of \<open>for qname in global_names\<close>; \<open>Some err\<close> is an exception that
  leaves \<open>build_xsd_map\<close>.\<close>

definition for_body ::
  "'s factory \<Rightarrow> string \<Rightarrow> (xml_schema \<Rightarrow> bool) \<Rightarrow> nat \<Rightarrow> qname \<Rightarrow> 's build_state
     \<Rightarrow> error option \<times> 's build_state" where
  "for_body fac target built errors_counter q st =
     (case map_of (xsd_globals st) q of
        None \<Rightarrow> (Some (PyError ''KeyError''), st)
      | Some obj \<Rightarrow>
          (case try_part fac target built q obj st of
             (Continue, st1) \<Rightarrow> (None, st1)
           | (Raised err, st1) \<Rightarrow>
               if is_caught err then except_clause errors_counter q err st1 else (Some err, st1)
           | (Completed inst, st1) \<Rightarrow> else_clause target q inst st1))"

fun run_pass ::
  "'s factory \<Rightarrow> string \<Rightarrow> (xml_schema \<Rightarrow> bool) \<Rightarrow> nat \<Rightarrow> qname list \<Rightarrow> 's build_state
     \<Rightarrow> error option \<times> 's build_state" where
  "run_pass fac target built errors_counter [] st = (None, st)"
| "run_pass fac target built errors_counter (q # qs) st =
     (case for_body fac target built errors_counter q st of
        (Some err, st1) \<Rightarrow> (Some err, st1)
      | (None, st1) \<Rightarrow> run_pass fac target built errors_counter qs st1)"

text \<open>Facts about one pass that the termination of the loop rests on: a key is deferred
  at most once in an iteration, and an iteration that defers it without raising has not
  reached \<open>errors_counter\<close>.\<close>

lemma call_factory_frame:
  "call_factory fac q e s prev st = (r, st') \<Longrightarrow>
     missing st' = missing st \<and> errors st' = errors st \<and> i_var st' = i_var st \<and>
     elem_var st' = elem_var st \<and> xsd_globals st' = xsd_globals st"
  by (auto simp: call_factory_def split: prod.splits sum.splits)

lemma walk_chain_frame:
  "walk_chain fac target q obj rest inst st = (r, st') \<Longrightarrow>
     missing st' = missing st \<and> errors st' = errors st \<and> i_var st' = i_var st"
proof (induction fac target q obj rest inst st rule: walk_chain.induct)
  case (1 fac target q obj inst st)
  then show ?case by simp
next
  case (2 fac target q obj x rest inst st)
  then show ?case by simp
next
  case (3 fac target q obj d rest inst st)
  then show ?case by simp
next
  case (4 fac target q obj e s rest inst st)
  show ?case
  proof (cases "tag e \<noteq> target")
    case True
    with 4 show ?thesis by auto
  next
    case False
    obtain r2 st2 where cf: "call_factory fac q e s inst (st\<lparr>elem_var := Some (Some e)\<rparr>) = (r2, st2)"
      by (cases "call_factory fac q e s inst (st\<lparr>elem_var := Some (Some e)\<rparr>)")
    note fr = call_factory_frame [OF cf]
    show ?thesis
    proof (cases r2)
      case (Inl err)
      with 4 False cf fr show ?thesis by auto
    next
      case (Inr x)
      with 4(2) False cf have
        "walk_chain fac target q (obj[0 := Inst x]) rest (Some x)
           (st2\<lparr>xsd_globals := AList.update q (Chain (obj[0 := Inst x])) (xsd_globals st2)\<rparr>) = (r, st')"
        by (simp add: Let_def)
      from 4(1) [OF refl False cf [symmetric] Inr refl this] fr show ?thesis by simp
    qed
  qed
qed

lemma try_part_frame:
  "try_part fac target built q obj st = (r, st') \<Longrightarrow>
     missing st' = missing st \<and> errors st' = errors st \<and> i_var st' = i_var st"
  by (auto simp: try_part_def Let_def split: entry.splits option.splits if_splits prod.splits
        sum.splits list.splits link.splits dest!: call_factory_frame walk_chain_frame)

lemma else_clause_frame:
  "else_clause target q inst st = (r, st') \<Longrightarrow>
     missing st' = missing st \<and> errors st' = errors st \<and> i_var st' = i_var st"
  by (auto simp: else_clause_def split: option.splits if_splits)

lemma for_body_missing:
  "for_body fac target built ec q st = (None, st') \<Longrightarrow>
     missing st' = missing st \<or> (missing st' = missing st @ [q] \<and> length (missing st') \<noteq> ec)"
  by (auto simp: for_body_def except_clause_def defer_key_def Let_def
        split: option.splits try_result.splits prod.splits if_splits
        dest!: try_part_frame else_clause_frame)


lemma run_pass_progress:
  "run_pass fac target built ec names st = (None, st') \<Longrightarrow> length (missing st) < ec \<Longrightarrow>
     length (missing st') < ec"
proof (induction names arbitrary: st)
  case Nil
  then show ?case by simp
next
  case (Cons q qs)
  then obtain st1 where fb: "for_body fac target built ec q st = (None, st1)"
    and rp: "run_pass fac target built ec qs st1 = (None, st')"
    by (auto split: prod.splits option.splits)
  from for_body_missing [OF fb] Cons.prems(2) have "length (missing st1) < ec" by auto
  from Cons.IH [OF rp this] show ?case .
qed

lemma run_pass_length:
  "run_pass fac target built ec names st = (None, st') \<Longrightarrow>
     length (missing st') \<le> length (missing st) + length names"
proof (induction names arbitrary: st)
  case Nil
  then show ?case by simp
next
  case (Cons q qs)
  then obtain st1 where fb: "for_body fac target built ec q st = (None, st1)"
    and rp: "run_pass fac target built ec qs st1 = (None, st')"
    by (auto split: prod.splits option.splits)
  from for_body_missing [OF fb] have "length (missing st1) \<le> length (missing st) + 1" by auto
  with Cons.IH [OF rp] show ?case by simp
qed

text \<open>
  The loop \<open>while True\<close>: a pass over \<open>global_names\<close> with fresh \<open>missing\<close> and \<open>errors\<close>;
  it stops when nothing was deferred, and goes on with the deferred keys and their number
  otherwise. It ends because a pass that meets \<open>errors_counter = len(global_names)\<close> and
  does not raise defers fewer keys than it was given.
\<close>

function while_loop ::
  "'s factory \<Rightarrow> string \<Rightarrow> (xml_schema \<Rightarrow> bool) \<Rightarrow> qname list \<Rightarrow> nat \<Rightarrow> 's build_state
     \<Rightarrow> error option \<times> 's build_state" where
  "while_loop fac target built global_names errors_counter st =
     (case run_pass fac target built errors_counter global_names
             (st\<lparr>i_var := i_var st + 1, missing := [], errors := []\<rparr>) of
        (Some err, st1) \<Rightarrow> (Some err, st1)
      | (None, st1) \<Rightarrow>
          if missing st1 = [] then (None, st1)
          else while_loop fac target built (missing st1) (length (missing st1)) st1)"
  by pat_completeness auto

termination while_loop
proof (relation "measure (\<lambda>(fac, target, built, global_names, errors_counter, st).
          2 * length global_names + (if errors_counter = length global_names then 0 else 1))",
       goal_cases)
  case 1
  show ?case by simp
next
  case (2 fac target built global_names errors_counter st x st1)
  let ?st0 = "st\<lparr>i_var := i_var st + 1, missing := [], errors := []\<rparr>"
  from 2 have rp: "run_pass fac target built errors_counter global_names ?st0 = (None, st1)"
    by simp
  from run_pass_length [OF rp] have le: "length (missing st1) \<le> length global_names" by simp
  show ?case
  proof (cases "errors_counter = length global_names")
    case True
    from 2 le have "global_names \<noteq> []" by auto
    with True run_pass_progress [OF rp] have "length (missing st1) < length global_names"
      by simp
    with True show ?thesis by simp
  next
    case False
    with le show ?thesis by simp
  qed
qed

declare while_loop.simps [simp del]

text \<open>
  \<open>build_xsd_map(xsd_globals, tag, **kwargs)\<close>. \<open>global_names = set(xsd_globals.keys())\<close>
  is iterated in an order Python does not specify: \<open>set_order\<close> gives the order in which
  the set of the (distinct) keys is walked. The factory is \<open>kwargs.get(factory_key)\<close>,
  taken to be there. The state is returned with an error too, since the map is changed
  in place.
\<close>

definition initial_state :: "xsd_map \<Rightarrow> 's \<Rightarrow> 's build_state" where
  "initial_state m w =
     \<lparr>xsd_globals = m, world = w, calls = [], i_var = 0, missing = [], errors = [],
      elem_var = None, res_qname_var = None\<rparr>"

definition build_xsd_map ::
  "(qname list \<Rightarrow> qname list) \<Rightarrow> 's factory \<Rightarrow> string \<Rightarrow> (xml_schema \<Rightarrow> bool) \<Rightarrow> xsd_map \<Rightarrow> 's
     \<Rightarrow> error option \<times> 's build_state" where
  "build_xsd_map set_order fac target built m w =
     while_loop fac target built (set_order (remdups (map fst m))) 0 (initial_state m w)"

subsection \<open>Declaration Loader\<close>

text \<open>
  The tags of the XSD vocabulary are constants of the module \<open>qnames\<close>, which is not part
  of the source: they are given their values in the XML Schema namespace.
\<close>

definition XSD_REDEFINE_TAG :: string where
  "XSD_REDEFINE_TAG = ''{http://www.w3.org/2001/XMLSchema}redefine''"

definition XSD_SIMPLE_TYPE_TAG :: string where
  "XSD_SIMPLE_TYPE_TAG = ''{http://www.w3.org/2001/XMLSchema}simpleType''"

definition XSD_COMPLEX_TYPE_TAG :: string where
  "XSD_COMPLEX_TYPE_TAG = ''{http://www.w3.org/2001/XMLSchema}complexType''"

definition XSD_ATTRIBUTE_TAG :: string where
  "XSD_ATTRIBUTE_TAG = ''{http://www.w3.org/2001/XMLSchema}attribute''"

definition XSD_ATTRIBUTE_GROUP_TAG :: string where
  "XSD_ATTRIBUTE_GROUP_TAG = ''{http://www.w3.org/2001/XMLSchema}attributeGroup''"

definition XSD_ELEMENT_TAG :: string where
  "XSD_ELEMENT_TAG = ''{http://www.w3.org/2001/XMLSchema}element''"

definition XSD_GROUP_TAG :: string where
  "XSD_GROUP_TAG = ''{http://www.w3.org/2001/XMLSchema}group''"

text \<open>The scanners \<open>iterfind_xsd_redefine\<close>, \<open>iterfind_xsd_simple_types\<close> and so on, called
  with one element and neither path nor namespaces.\<close>

definition iterfind_xsd :: "iterfind \<Rightarrow> string \<Rightarrow> xml_elem \<Rightarrow> xml_elem list" where
  "iterfind_xsd query tg e = create_iterfind_by_tag query tg (One e) None None"

definition iterfind_xsd_redefine :: "iterfind \<Rightarrow> xml_elem \<Rightarrow> xml_elem list" where
  "iterfind_xsd_redefine query e = iterfind_xsd query XSD_REDEFINE_TAG e"

text \<open>\<open>get_xsd_attribute(elem, 'name')\<close> belongs to the module \<open>xsdbase\<close>, which is not part
  of the source: it is a parameter, which gives the attribute or raises.\<close>

type_synonym get_attribute = "xml_elem \<Rightarrow> string \<Rightarrow> error + string"

type_synonym redefinitions = "(qname \<times> xml_elem \<times> xml_schema) list"

text \<open>
  The statement \<open>try: xsd_globals[qname].append(obj)\<close> with its two handlers: a key that is
  absent gets the tuple (\<open>KeyError\<close>), a list is extended in place, and a value without
  \<open>append\<close> (\<open>AttributeError\<close>) is replaced by the list of itself and the tuple.
\<close>

definition store_declaration :: "qname \<Rightarrow> xml_elem \<Rightarrow> xml_schema \<Rightarrow> xsd_map \<Rightarrow> xsd_map" where
  "store_declaration qn e s m =
     (case map_of m qn of
        None \<Rightarrow> AList.update qn (Single e s) m
      | Some (Chain links) \<Rightarrow> AList.update qn (Chain (links @ [Raw e s])) m
      | Some (Single e0 s0) \<Rightarrow> AList.update qn (Chain [Raw e0 s0, Raw e s]) m
      | Some (Resolved b) \<Rightarrow> AList.update qn (Chain [Inst b, Raw e s]) m
      | Some (Other d) \<Rightarrow> AList.update qn (Chain [Junk d, Raw e s]) m)"

text \<open>The children of the \<open>redefine\<close> blocks of a schema are staged, in order.\<close>

fun stage_redefinitions ::
  "get_attribute \<Rightarrow> xml_schema \<Rightarrow> xml_elem list \<Rightarrow> redefinitions \<Rightarrow> error option \<times> redefinitions" where
  "stage_redefinitions get_attr s [] reds = (None, reds)"
| "stage_redefinitions get_attr s (child # cs) reds =
     (case get_attr child ''name'' of
        Inl err \<Rightarrow> (Some err, reds)
      | Inr name \<Rightarrow>
          stage_redefinitions get_attr s cs
            (reds @ [(get_qname (target_namespace s) name, child, s)]))"

text \<open>The declarations found under the root of a schema are stored, in order.\<close>

fun load_declarations ::
  "get_attribute \<Rightarrow> xml_schema \<Rightarrow> xml_elem list \<Rightarrow> xsd_map \<Rightarrow> error option \<times> xsd_map" where
  "load_declarations get_attr s [] m = (None, m)"
| "load_declarations get_attr s (e # es) m =
     (case get_attr e ''name'' of
        Inl err \<Rightarrow> (Some err, m)
      | Inr name \<Rightarrow>
          load_declarations get_attr s es
            (store_declaration (get_qname (target_namespace s) name) e s m))"

text \<open>The first loop of \<open>load_xsd_globals\<close>, over the schemas; a schema that is built is
  skipped.\<close>

fun scan_schemas ::
  "iterfind \<Rightarrow> get_attribute \<Rightarrow> (xml_elem \<Rightarrow> xml_elem list) \<Rightarrow> (xml_schema \<Rightarrow> bool) \<Rightarrow>
     xml_schema list \<Rightarrow> xsd_map \<Rightarrow> redefinitions \<Rightarrow> error option \<times> xsd_map \<times> redefinitions" where
  "scan_schemas query get_attr filter_function built [] m reds = (None, m, reds)"
| "scan_schemas query get_attr filter_function built (s # ss) m reds =
     (if built s then scan_schemas query get_attr filter_function built ss m reds
      else
        (case stage_redefinitions get_attr s
                (concat (map filter_function (iterfind_xsd_redefine query (root s)))) reds of
           (Some err, reds1) \<Rightarrow> (Some err, m, reds1)
         | (None, reds1) \<Rightarrow>
             (case load_declarations get_attr s (filter_function (root s)) m of
                (Some err, m1) \<Rightarrow> (Some err, m1, reds1)
              | (None, m1) \<Rightarrow> scan_schemas query get_attr filter_function built ss m1 reds1)))"

text \<open>The second loop, over the staged redefinitions. The handler of \<open>KeyError\<close> cannot
  be reached after the test \<open>qname not in xsd_globals\<close>.\<close>

fun append_redefinitions :: "redefinitions \<Rightarrow> xsd_map \<Rightarrow> error option \<times> xsd_map" where
  "append_redefinitions [] m = (None, m)"
| "append_redefinitions ((qn, e, s) # rest) m =
     (if map_of m qn = None then (Some (XMLSchemaParseError ''not a redefinition!'' (Some e)), m)
      else append_redefinitions rest (store_declaration qn e s m))"

text \<open>\<open>load_xsd_globals(xsd_globals, schemas)\<close> of \<open>create_load_function(filter_function)\<close>.
  The map is changed in place, so it is returned with an error too.\<close>

definition load_xsd_globals ::
  "iterfind \<Rightarrow> get_attribute \<Rightarrow> (xml_elem \<Rightarrow> xml_elem list) \<Rightarrow> (xml_schema \<Rightarrow> bool) \<Rightarrow>
     xsd_map \<Rightarrow> xml_schema list \<Rightarrow> error option \<times> xsd_map" where
  "load_xsd_globals query get_attr filter_function built m schemas =
     (case scan_schemas query get_attr filter_function built schemas m [] of
        (Some err, m1, reds) \<Rightarrow> (Some err, m1)
      | (None, m1, reds) \<Rightarrow> append_redefinitions reds m1)"

subsection \<open>Global Registry\<close>

text \<open>
  A view is the dictionary a call of \<open>get_globals\<close> builds from the items of one of the
  dictionaries of the registry. Its keys are keys of that dictionary (qualified names for
  the six component maps, URIs for the two indexes of the schemas, the triples of the
  cache itself) or local names, which are strings; its values are the values of that
  dictionary. The registry holds the two indexes of the schemas, the six component maps
  and the cache of the views; \<open>builtin_types\<close> is \<open>validator.BUILTIN_TYPES\<close>, and
  \<open>built_flags\<close> is the store of the flags \<open>built\<close> of the schemas.
\<close>

datatype py_key = QNameKey qname | StrKey string | CacheKey "string \<times> string \<times> bool"

datatype py_value =
    ComponentValue entry
  | SchemasValue "xml_schema list"
  | SchemaValue xml_schema
  | ViewValue "(py_key \<times> py_value) list"

type_synonym view = "(py_key \<times> py_value) list"

record registry =
  namespaces :: "(string \<times> xml_schema list) list"
  resources :: "(string \<times> xml_schema) list"
  types :: xsd_map
  attributes :: xsd_map
  attribute_groups :: xsd_map
  groups :: xsd_map
  elements :: xsd_map
  base_elements :: xsd_map
  view_cache :: "((string \<times> string \<times> bool) \<times> view) list"
  builtin_types :: xsd_map
  built_flags :: "xml_schema \<Rightarrow> bool"

text \<open>\<open>d.update(other)\<close> and a dictionary comprehension: the pairs are stored one after
  the other, a later one replacing an earlier one with the same key.\<close>

definition dict_update :: "('k \<times> 'v) list \<Rightarrow> ('k \<times> 'v) list \<Rightarrow> ('k \<times> 'v) list" where
  "dict_update d other = fold (\<lambda>(k, v) acc. AList.update k v acc) other d"

definition dict_of :: "('k \<times> 'v) list \<Rightarrow> ('k \<times> 'v) list" where
  "dict_of pairs = dict_update [] pairs"

text \<open>\<open>d.items()\<close>: every key once, with its value, in the order of the keys. (For an
  association list whose keys are distinct, as every dictionary is, these are its
  pairs.)\<close>

definition items :: "('k \<times> 'v) list \<Rightarrow> ('k \<times> 'v) list" where
  "items d =
     concat (map (\<lambda>k. case map_of d k of None \<Rightarrow> [] | Some v \<Rightarrow> [(k, v)]) (remdups (map fst d)))"

definition iter_schemas :: "registry \<Rightarrow> xml_schema list" where
  "iter_schemas self = concat (map snd (namespaces self))"

text \<open>
  \<open>getattr(self, map_name).items()\<close>. The attributes that are dictionaries are the six
  component maps, the indexes \<open>namespaces\<close> and \<open>resources\<close>, and \<open>_view_cache\<close>. What any other
  name gives (the validator, a method, a special attribute, or no attribute at all, which
  raises \<open>AttributeError\<close>) is outside the source: it is the parameter \<open>other_attribute\<close>.
  So is what the helpers \<open>get_namespace\<close> and \<open>local_name\<close> do with a key that is no
  qualified name (\<open>foreign_namespace\<close>, \<open>foreign_local_name\<close>): they return a string or
  raise.
\<close>

record externals =
  other_attribute :: "string \<Rightarrow> error + view"
  foreign_namespace :: "py_key \<Rightarrow> error + string"
  foreign_local_name :: "py_key \<Rightarrow> error + string"

definition getattr_items :: "externals \<Rightarrow> registry \<Rightarrow> string \<Rightarrow> error + view" where
  "getattr_items ext self map_name =
     (if map_name = ''types''
      then Inr (map (\<lambda>(k, v). (QNameKey k, ComponentValue v)) (items (types self)))
      else if map_name = ''attributes''
      then Inr (map (\<lambda>(k, v). (QNameKey k, ComponentValue v)) (items (attributes self)))
      else if map_name = ''attribute_groups''
      then Inr (map (\<lambda>(k, v). (QNameKey k, ComponentValue v)) (items (attribute_groups self)))
      else if map_name = ''groups''
      then Inr (map (\<lambda>(k, v). (QNameKey k, ComponentValue v)) (items (groups self)))
      else if map_name = ''elements''
      then Inr (map (\<lambda>(k, v). (QNameKey k, ComponentValue v)) (items (elements self)))
      else if map_name = ''base_elements''
      then Inr (map (\<lambda>(k, v). (QNameKey k, ComponentValue v)) (items (base_elements self)))
      else if map_name = ''namespaces''
      then Inr (map (\<lambda>(k, v). (StrKey k, SchemasValue v)) (items (namespaces self)))
      else if map_name = ''resources''
      then Inr (map (\<lambda>(k, v). (StrKey k, SchemaValue v)) (items (resources self)))
      else if map_name = ''_view_cache''
      then Inr (map (\<lambda>(k, v). (CacheKey k, ViewValue v)) (items (view_cache self)))
      else other_attribute ext map_name)"

definition key_namespace :: "externals \<Rightarrow> py_key \<Rightarrow> error + string" where
  "key_namespace ext k =
     (case k of QNameKey q \<Rightarrow> Inr (get_namespace q) | StrKey u \<Rightarrow> foreign_namespace ext k
      | CacheKey c \<Rightarrow> foreign_namespace ext k)"

definition key_local_name :: "externals \<Rightarrow> py_key \<Rightarrow> error + string" where
  "key_local_name ext k =
     (case k of QNameKey q \<Rightarrow> Inr (local_name q) | StrKey u \<Rightarrow> foreign_local_name ext k
      | CacheKey c \<Rightarrow> foreign_local_name ext k)"

text \<open>The two dictionary comprehensions of \<open>get_globals\<close>, item by item: the condition
  \<open>namespace == get_namespace(k)\<close> first, then the key of the new item. An exception of a
  helper ends the comprehension.\<close>

fun fqn_comprehension :: "externals \<Rightarrow> string \<Rightarrow> view \<Rightarrow> view \<Rightarrow> error + view" where
  "fqn_comprehension ext namespace [] acc = Inr acc"
| "fqn_comprehension ext namespace ((k, v) # rest) acc =
     (case key_namespace ext k of
        Inl err \<Rightarrow> Inl err
      | Inr n \<Rightarrow>
          if namespace = n then fqn_comprehension ext namespace rest (AList.update k v acc)
          else fqn_comprehension ext namespace rest acc)"

fun local_comprehension :: "externals \<Rightarrow> string \<Rightarrow> view \<Rightarrow> view \<Rightarrow> error + view" where
  "local_comprehension ext namespace [] acc = Inr acc"
| "local_comprehension ext namespace ((k, v) # rest) acc =
     (case key_namespace ext k of
        Inl err \<Rightarrow> Inl err
      | Inr n \<Rightarrow>
          if namespace = n
          then (case key_local_name ext k of
                  Inl err \<Rightarrow> Inl err
                | Inr l \<Rightarrow> local_comprehension ext namespace rest (AList.update (StrKey l) v acc))
          else local_comprehension ext namespace rest acc)"

text \<open>The view a call that finds nothing in the cache computes, or the exception that
  ends it.\<close>

definition compute_view :: "externals \<Rightarrow> registry \<Rightarrow> string \<Rightarrow> string \<Rightarrow> bool \<Rightarrow> error + view" where
  "compute_view ext self map_name namespace fqn_keys =
     (case getattr_items ext self map_name of
        Inl err \<Rightarrow> Inl err
      | Inr its \<Rightarrow>
          if fqn_keys then fqn_comprehension ext namespace its []
          else local_comprehension ext namespace its [])"

text \<open>\<open>get_globals(map_name, namespace, fqn_keys)\<close>: the cached view when the key is in the
  cache; otherwise the computed view, which is stored under the key before it is
  returned. An exception leaves the cache as it is.\<close>

definition get_globals ::
  "externals \<Rightarrow> registry \<Rightarrow> string \<Rightarrow> string \<Rightarrow> bool \<Rightarrow> (error + view) \<times> registry" where
  "get_globals ext self map_name namespace fqn_keys =
     (case map_of (view_cache self) (map_name, namespace, fqn_keys) of
        Some cached \<Rightarrow> (Inr cached, self)
      | None \<Rightarrow>
          (case compute_view ext self map_name namespace fqn_keys of
             Inl err \<Rightarrow> (Inl err, self)
           | Inr computed \<Rightarrow>
               (Inr computed,
                self\<lparr>view_cache :=
                  AList.update (map_name, namespace, fqn_keys) computed (view_cache self)\<rparr>)))"

text \<open>\<open>__init__\<close>: empty indexes, maps and cache; the types start as the built-in types. No
  schema exists yet, so no flag \<open>built\<close> is set.\<close>

definition new_registry :: "xsd_map \<Rightarrow> registry" where
  "new_registry builtin =
     \<lparr>namespaces = [], resources = [], types = dict_update [] builtin, attributes = [],
      attribute_groups = [], groups = [], elements = [], base_elements = [], view_cache = [],
      builtin_types = builtin, built_flags = (\<lambda>s. False)\<rparr>"

definition clear :: "registry \<Rightarrow> bool \<Rightarrow> registry" where
  "clear self remove_schemas =
     (let cleared = self
        \<lparr>types := dict_update [] (builtin_types self),
         attributes := [], attribute_groups := [], groups := [], elements := [],
         base_elements := [], view_cache := [],
         built_flags := (\<lambda>s. if s \<in> set (iter_schemas self) then False else built_flags self s)\<rparr>
      in if remove_schemas then cleared\<lparr>namespaces := [], resources := []\<rparr> else cleared)"

text \<open>
  \<open>build()\<close> is a sequence of steps on the registry and the state of the factories, which
  the first exception ends. A step loads into or builds one of the maps. The factories
  are the values of \<open>validator.OPTIONS\<close> under the six factory keys; a factory is called
  with the options, among them \<open>parse_local_groups\<close> in the second round, and can read the
  registry. \<open>iter_elements\<close> gives, for a built group, the elements it contains with their
  names (\<open>e.name\<close>); both belong to classes that are not part of the source.
\<close>

datatype field = TypesField | AttributesField | AttributeGroupsField | GroupsField | ElementsField

fun get_field :: "field \<Rightarrow> registry \<Rightarrow> xsd_map" where
  "get_field TypesField self = types self"
| "get_field AttributesField self = attributes self"
| "get_field AttributeGroupsField self = attribute_groups self"
| "get_field GroupsField self = groups self"
| "get_field ElementsField self = elements self"

fun set_field :: "field \<Rightarrow> xsd_map \<Rightarrow> registry \<Rightarrow> registry" where
  "set_field TypesField m self = self\<lparr>types := m\<rparr>"
| "set_field AttributesField m self = self\<lparr>attributes := m\<rparr>"
| "set_field AttributeGroupsField m self = self\<lparr>attribute_groups := m\<rparr>"
| "set_field GroupsField m self = self\<lparr>groups := m\<rparr>"
| "set_field ElementsField m self = self\<lparr>elements := m\<rparr>"

type_synonym 's step = "registry \<times> 's \<Rightarrow> error option \<times> registry \<times> 's"

type_synonym 's options = "string \<Rightarrow> bool \<Rightarrow> registry \<Rightarrow> 's factory"

definition load_step :: "iterfind \<Rightarrow> get_attribute \<Rightarrow> string \<Rightarrow> field \<Rightarrow> 's step" where
  "load_step query get_attr tg f = (\<lambda>(self, w).
     (case load_xsd_globals query get_attr (iterfind_xsd query tg) (built_flags self)
             (get_field f self) (iter_schemas self) of
        (r, m) \<Rightarrow> (r, set_field f m self, w)))"

definition build_step ::
  "(qname list \<Rightarrow> qname list) \<Rightarrow> (registry \<Rightarrow> 's factory) \<Rightarrow> string \<Rightarrow> field \<Rightarrow> 's step" where
  "build_step set_order fac tg f = (\<lambda>(self, w).
     (case build_xsd_map set_order (fac self) tg (built_flags self) (get_field f self) w of
        (r, st) \<Rightarrow> (r, set_field f (xsd_globals st) self, world st)))"

text \<open>The loop over \<open>self.groups.values()\<close>; a value that is no built group has no
  method \<open>iter_elements\<close>.\<close>

fun update_from_groups ::
  "(xsd_base \<Rightarrow> (qname \<times> xsd_base) list) \<Rightarrow> entry list \<Rightarrow> xsd_map \<Rightarrow> error option \<times> xsd_map" where
  "update_from_groups iter_elements [] m = (None, m)"
| "update_from_groups iter_elements (Resolved g # gs) m =
     update_from_groups iter_elements gs
       (dict_update m (dict_of (map (\<lambda>(n, e). (n, Resolved e)) (iter_elements g))))"
| "update_from_groups iter_elements (other # gs) m = (Some (PyError ''AttributeError''), m)"

definition update_base_elements :: "(xsd_base \<Rightarrow> (qname \<times> xsd_base) list) \<Rightarrow> 's step" where
  "update_base_elements iter_elements = (\<lambda>(self, w).
     (case update_from_groups iter_elements (map snd (items (groups self)))
             (dict_update (base_elements self) (items (elements self))) of
        (r, m) \<Rightarrow> (r, self\<lparr>base_elements := m\<rparr>, w)))"

definition mark_built :: "'s step" where
  "mark_built = (\<lambda>(self, w).
     (None, self\<lparr>built_flags := (\<lambda>s. if s \<in> set (iter_schemas self) then True else built_flags self s)\<rparr>, w))"

fun run_steps :: "'s step list \<Rightarrow> 's step" where
  "run_steps [] x = (None, x)"
| "run_steps (step # steps) x =
     (case step x of (Some err, y) \<Rightarrow> (Some err, y) | (None, y) \<Rightarrow> run_steps steps y)"

definition build ::
  "(qname list \<Rightarrow> qname list) \<Rightarrow> iterfind \<Rightarrow> get_attribute \<Rightarrow> (xsd_base \<Rightarrow> (qname \<times> xsd_base) list) \<Rightarrow>
     's options \<Rightarrow> 's step" where
  "build set_order query get_attr iter_elements kwargs =
     run_steps
       [load_step query get_attr XSD_SIMPLE_TYPE_TAG TypesField,
        build_step set_order (kwargs ''simple_type_factory'' False) XSD_SIMPLE_TYPE_TAG TypesField,
        load_step query get_attr XSD_ATTRIBUTE_TAG AttributesField,
        build_step set_order (kwargs ''attribute_factory'' False) XSD_ATTRIBUTE_TAG AttributesField,
        load_step query get_attr XSD_ATTRIBUTE_GROUP_TAG AttributeGroupsField,
        build_step set_order (kwargs ''attribute_group_factory'' False) XSD_ATTRIBUTE_GROUP_TAG
          AttributeGroupsField,
        load_step query get_attr XSD_COMPLEX_TYPE_TAG TypesField,
        build_step set_order (kwargs ''complex_type_factory'' False) XSD_COMPLEX_TYPE_TAG TypesField,
        load_step query get_attr XSD_ELEMENT_TAG ElementsField,
        build_step set_order (kwargs ''element_factory'' False) XSD_ELEMENT_TAG ElementsField,
        load_step query get_attr XSD_GROUP_TAG GroupsField,
        build_step set_order (kwargs ''group_factory'' False) XSD_GROUP_TAG GroupsField,
        build_step set_order (kwargs ''group_factory'' True) XSD_GROUP_TAG GroupsField,
        build_step set_order (kwargs ''complex_type_factory'' True) XSD_COMPLEX_TYPE_TAG TypesField,
        build_step set_order (kwargs ''element_factory'' True) XSD_ELEMENT_TAG ElementsField,
        update_base_elements iter_elements,
        mark_built]"

section \<open>Reference notions for the properties\<close>

text \<open>The depth-first order of a tree of data elements: the element, then the elements
  of each subtree, children taken in order.\<close>

fun self_and_descendants :: "'t data_element \<Rightarrow> 't data_element list" where
  "self_and_descendants (DataElement tg v xe xt cs) =
     DataElement tg v xe xt cs # concat (map self_and_descendants cs)"

text \<open>A document query for concrete examples: a path that is a bare tag finds the
  subelements with this tag, as the element trees of the standard library do.\<close>

definition children_by_tag :: iterfind where
  "children_by_tag e path ns = filter (\<lambda>c. tag c = path) (subelements e)"

text \<open>A registry for concrete examples: one built schema, two global elements in two
  namespaces, nothing cached.\<close>

definition example_schema :: xml_schema where
  "example_schema = \<lparr>schema_id = 0, uri = ''a.xsd'', target_namespace = ''urn:a'',
     root = Element ''{http://www.w3.org/2001/XMLSchema}schema'' [] []\<rparr>"

definition example_registry :: registry where
  "example_registry =
     \<lparr>namespaces = [(''urn:a'', [example_schema])], resources = [(''a.xsd'', example_schema)],
      types = [], attributes = [], attribute_groups = [], groups = [],
      elements = [((''urn:a'', ''e1''), Resolved \<lparr>elem = None, schema = example_schema, ident = 1\<rparr>),
                  ((''urn:b'', ''e2''), Resolved \<lparr>elem = None, schema = example_schema, ident = 2\<rparr>)],
      base_elements = [], view_cache = [], builtin_types = [], built_flags = (\<lambda>s. True)\<rparr>"

text \<open>The helpers outside the source, for the examples: a key that is a string is a name
  without a namespace, and a key that is a tuple makes the helper raise. No other
  attribute of the registry has items.\<close>

definition example_externals :: externals where
  "example_externals =
     \<lparr>other_attribute = (\<lambda>name. Inl (PyError ''AttributeError'')),
      foreign_namespace =
        (\<lambda>k. case k of StrKey u \<Rightarrow> Inr [] | other \<Rightarrow> Inl (PyError ''TypeError'')),
      foreign_local_name =
        (\<lambda>k. case k of StrKey u \<Rightarrow> Inr u | other \<Rightarrow> Inl (PyError ''TypeError''))\<rparr>"

definition element_e1_instance :: entry where
  "element_e1_instance = Resolved \<lparr>elem = None, schema = example_schema, ident = 1\<rparr>"

definition element_e2_instance :: entry where
  "element_e2_instance = Resolved \<lparr>elem = None, schema = example_schema, ident = 2\<rparr>"

definition example_requests :: "(string \<times> string \<times> bool) list" where
  "example_requests =
     [(''elements'', ''urn:b'', False), (''namespaces'', [], True), (''_view_cache'', [], True),
      (''validator'', [], True), (''elements'', ''urn:a'', False)]"


subsection \<open>Calls between two calls of \<open>get_globals\<close>\<close>

text \<open>Any number of calls of \<open>get_globals\<close>, each with arguments of its own, one after the
  other on the registry; what they return is dropped. And the property of a step of
  \<open>build()\<close> that it leaves the view cache alone.\<close>

definition get_globals_many ::
  "externals \<Rightarrow> registry \<Rightarrow> (string \<times> string \<times> bool) list \<Rightarrow> registry" where
  "get_globals_many ext self requests =
     fold (\<lambda>(map_name, namespace, fqn_keys) r. snd (get_globals ext r map_name namespace fqn_keys))
       requests self"

definition keeps_view_cache :: "'s step \<Rightarrow> bool" where
  "keeps_view_cache step = (\<forall>x. view_cache (fst (snd (step x))) = view_cache (fst x))"


subsection \<open>The builder with the exhaustion check after the pass\<close>












subsection \<open>Concrete inputs for the builder\<close>

text \<open>Two attribute groups of the example schema; a factory that never finds what a
  declaration refers to; a factory that builds an instance from any declaration, named
  after the declaration's \<open>name\<close> attribute and numbered by a counter.\<close>

definition group_a :: xml_elem where
  "group_a = Element XSD_ATTRIBUTE_GROUP_TAG [(''name'', ''a'')] []"



definition name_of_elem :: "xml_elem \<Rightarrow> string" where
  "name_of_elem e = (case map_of (attrib e) ''name'' of None \<Rightarrow> [] | Some n \<Rightarrow> n)"

definition ready_factory :: "nat factory" where
  "ready_factory m w e s prev =
     (Inr ((target_namespace s, name_of_elem e), \<lparr>elem = Some e, schema = s, ident = w\<rparr>), w + 1)"


definition built_group_a :: xsd_base where
  "built_group_a = \<lparr>elem = Some group_a, schema = example_schema, ident = 7\<rparr>"


subsection \<open>Concrete inputs for the loader\<close>

text \<open>An attribute reader that raises a parse error when the attribute is missing, and
  a schema whose only content is a \<open>redefine\<close> block with the element \<open>E1\<close>.\<close>

definition attribute_of :: get_attribute where
  "attribute_of e a =
     (case map_of (attrib e) a of
        None \<Rightarrow> Inl (XMLSchemaParseError (''attribute '' @ a @ '' expected'') (Some e))
      | Some v \<Rightarrow> Inr v)"

definition element_e1 :: xml_elem where
  "element_e1 = Element XSD_ELEMENT_TAG [(''name'', ''E1'')] []"

definition redefine_only_schema :: xml_schema where
  "redefine_only_schema = \<lparr>schema_id = 1, uri = ''r.xsd'', target_namespace = ''urn:r'',
     root = Element ''{http://www.w3.org/2001/XMLSchema}schema'' []
              [Element XSD_REDEFINE_TAG [(''schemaLocation'', ''base.xsd'')] [element_e1]]\<rparr>"


subsection \<open>Reference notions for chains\<close>

text \<open>
  The calls the builder is expected to make for a chain of declarations under the key
  \<open>q\<close>: one for every declaration, in the order of the chain, each succeeding with the
  name \<open>q\<close> and an instance, and each given the instance of the call before it (the first
  one \<open>previous\<close>). \<open>calls_for\<close> selects the recorded calls made for a key.
  \<open>always_succeeds\<close> says that the factory, called for a declaration of the chain, returns
  the name \<open>q\<close> and an instance, whatever the map, the state and the previous instance.
\<close>

fun threaded_calls ::
  "qname \<Rightarrow> (xml_elem \<times> xml_schema) list \<Rightarrow> xsd_base option \<Rightarrow> xsd_base list \<Rightarrow> call list" where
  "threaded_calls q ((e, s) # declarations) previous (x # xs) =
     (q, e, s, previous, Inr (q, x)) # threaded_calls q declarations (Some x) xs"
| "threaded_calls q declarations previous xs = []"

definition calls_for :: "qname \<Rightarrow> call list \<Rightarrow> call list" where
  "calls_for q cs = filter (\<lambda>c. fst c = q) cs"

definition always_succeeds ::
  "'s factory \<Rightarrow> qname \<Rightarrow> (xml_elem \<times> xml_schema) list \<Rightarrow> bool" where
  "always_succeeds fac q declarations =
     (\<forall>m w previous e s. (e, s) \<in> set declarations \<longrightarrow>
        (\<exists>x w'. fac m w e s previous = (Inr (q, x), w')))"

text \<open>
  The items of the value of a key, as a list: none for an absent key, the value itself
  for a value that is no list. What the loader gives a key: the declarations with this
  name under the roots of the schemas that are not built (\<open>declared_for\<close>), and those in
  their \<open>redefine\<close> blocks (\<open>redefined_for\<close>), both in the order of the schemas;
  \<open>staged_for\<close> selects the staged redefinitions of a key.
\<close>

fun links_of :: "entry option \<Rightarrow> link list" where
  "links_of None = []"
| "links_of (Some (Resolved b)) = [Inst b]"
| "links_of (Some (Single e s)) = [Raw e s]"
| "links_of (Some (Chain links)) = links"
| "links_of (Some (Other d)) = [Junk d]"

definition named :: "get_attribute \<Rightarrow> xml_schema \<Rightarrow> qname \<Rightarrow> xml_elem \<Rightarrow> bool" where
  "named get_attr s qn e =
     (case get_attr e ''name'' of
        Inl err \<Rightarrow> False
      | Inr name \<Rightarrow> get_qname (target_namespace s) name = qn)"

definition declared_for ::
  "get_attribute \<Rightarrow> (xml_elem \<Rightarrow> xml_elem list) \<Rightarrow> (xml_schema \<Rightarrow> bool) \<Rightarrow> xml_schema list \<Rightarrow> qname
     \<Rightarrow> (xml_elem \<times> xml_schema) list" where
  "declared_for get_attr filter_function built schemas qn =
     concat (map (\<lambda>s. if built s then []
                       else map (\<lambda>e. (e, s)) (filter (named get_attr s qn) (filter_function (root s))))
               schemas)"

definition redefined_for ::
  "iterfind \<Rightarrow> get_attribute \<Rightarrow> (xml_elem \<Rightarrow> xml_elem list) \<Rightarrow> (xml_schema \<Rightarrow> bool) \<Rightarrow> xml_schema list
     \<Rightarrow> qname \<Rightarrow> (xml_elem \<times> xml_schema) list" where
  "redefined_for query get_attr filter_function built schemas qn =
     concat (map (\<lambda>s. if built s then []
                       else map (\<lambda>e. (e, s))
                              (filter (named get_attr s qn)
                                 (concat (map filter_function (iterfind_xsd_redefine query (root s))))))
               schemas)"

definition staged_for :: "qname \<Rightarrow> redefinitions \<Rightarrow> (xml_elem \<times> xml_schema) list" where
  "staged_for qn reds = map snd (filter (\<lambda>red. fst red = qn) reds)"

text \<open>A complex type in one schema and a redefinition of it in another, which is first
  in the list of the schemas; the map of types after loading both into an empty map.\<close>

definition type_t_original :: xml_elem where
  "type_t_original = Element XSD_COMPLEX_TYPE_TAG [(''name'', ''T'')] []"

definition type_t_redefined :: xml_elem where
  "type_t_redefined = Element XSD_COMPLEX_TYPE_TAG [(''name'', ''T'')]
     [Element ''{http://www.w3.org/2001/XMLSchema}complexContent'' [] []]"

definition base_schema :: xml_schema where
  "base_schema = \<lparr>schema_id = 3, uri = ''base.xsd'', target_namespace = ''urn:a'',
     root = Element ''{http://www.w3.org/2001/XMLSchema}schema'' [] [type_t_original]\<rparr>"

definition redefining_schema :: xml_schema where
  "redefining_schema = \<lparr>schema_id = 4, uri = ''redefining.xsd'', target_namespace = ''urn:a'',
     root = Element ''{http://www.w3.org/2001/XMLSchema}schema'' []
              [Element XSD_REDEFINE_TAG [(''schemaLocation'', ''base.xsd'')] [type_t_redefined]]\<rparr>"

definition loaded_types :: xsd_map where
  "loaded_types = snd (load_xsd_globals children_by_tag attribute_of
      (iterfind_xsd children_by_tag XSD_COMPLEX_TYPE_TAG) (\<lambda>s. False) []
      [redefining_schema, base_schema])"


subsection \<open>Maps that hold built instances only\<close>

text \<open>
  \<open>all_resolved\<close>: every key of the map has a built instance as its value. The other
  notions serve the proof. A map is \<open>buildable\<close> for a tag when its values are instances,
  tuples with this tag, or lists of at least two items with an instance or a tuple with
  this tag first and tuples with this tag after it: what the loader for the tag makes of
  a map of instances. A key is \<open>settled\<close> when it is absent or has an instance.
\<close>

fun is_resolved :: "entry \<Rightarrow> bool" where
  "is_resolved (Resolved b) = True"
| "is_resolved v = False"

definition all_resolved :: "xsd_map \<Rightarrow> bool" where
  "all_resolved m = list_all (\<lambda>k. case map_of m k of None \<Rightarrow> False | Some v \<Rightarrow> is_resolved v) (map fst m)"

fun raw_with_tag :: "string \<Rightarrow> link \<Rightarrow> bool" where
  "raw_with_tag tg (Raw e s) = (tag e = tg)"
| "raw_with_tag tg l = False"

fun head_ok :: "string \<Rightarrow> link \<Rightarrow> bool" where
  "head_ok tg (Inst b) = True"
| "head_ok tg (Raw e s) = (tag e = tg)"
| "head_ok tg (Junk d) = False"

fun buildable_entry :: "string \<Rightarrow> entry \<Rightarrow> bool" where
  "buildable_entry tg (Resolved b) = True"
| "buildable_entry tg (Single e s) = (tag e = tg)"
| "buildable_entry tg (Chain (l0 # l1 # rest)) =
     (head_ok tg l0 \<and> list_all (raw_with_tag tg) (l1 # rest))"
| "buildable_entry tg (Chain links) = False"
| "buildable_entry tg (Other d) = False"

definition buildable :: "string \<Rightarrow> xsd_map \<Rightarrow> bool" where
  "buildable tg m = (\<forall>k v. map_of m k = Some v \<longrightarrow> buildable_entry tg v)"

definition settled :: "qname \<Rightarrow> xsd_map \<Rightarrow> bool" where
  "settled k m = (case map_of m k of None \<Rightarrow> True | Some v \<Rightarrow> is_resolved v)"


definition registry_resolved :: "registry \<Rightarrow> bool" where
  "registry_resolved self =
     (all_resolved (types self) \<and> all_resolved (attributes self) \<and>
      all_resolved (attribute_groups self) \<and> all_resolved (groups self) \<and>
      all_resolved (elements self) \<and> all_resolved (base_elements self))"


subsection \<open>Concrete inputs for the build\<close>

text \<open>
  A schema that declares a simple type and a complex type under the same name \<open>Q\<close>, in a
  registry that is otherwise new. The factory of complex types cannot resolve a base type
  as long as the state of the factories is 0, and builds an instance once it is not; the
  other factories always build one. No group contains an element.
\<close>

definition plain_factory :: "nat factory" where
  "plain_factory m w e s prev =
     (Inr ((target_namespace s, name_of_elem e), \<lparr>elem = Some e, schema = s, ident = 0\<rparr>), w)"

definition factory_needing_base :: "nat factory" where
  "factory_needing_base m w e s prev =
     (if w = 0 then (Inl (XMLSchemaLookupError ''unknown base type''), w)
      else (Inr ((target_namespace s, name_of_elem e), \<lparr>elem = Some e, schema = s, ident = w\<rparr>), w))"

definition example_options :: "nat options" where
  "example_options key parse_local_groups self =
     (if key = ''complex_type_factory'' then factory_needing_base else plain_factory)"

definition simple_q :: xml_elem where
  "simple_q = Element XSD_SIMPLE_TYPE_TAG [(''name'', ''Q'')] []"

definition complex_q :: xml_elem where
  "complex_q = Element XSD_COMPLEX_TYPE_TAG [(''name'', ''Q'')] []"

definition clash_schema :: xml_schema where
  "clash_schema = \<lparr>schema_id = 2, uri = ''q.xsd'', target_namespace = ''urn:q'',
     root = Element ''{http://www.w3.org/2001/XMLSchema}schema'' [] [simple_q, complex_q]\<rparr>"

definition clash_registry :: registry where
  "clash_registry = (new_registry [])\<lparr>namespaces := [(''urn:q'', [clash_schema])],
     resources := [(''q.xsd'', clash_schema)]\<rparr>"

definition example_build :: "registry \<times> nat \<Rightarrow> error option \<times> registry \<times> nat" where
  "example_build = build (\<lambda>ks. ks) children_by_tag attribute_of (\<lambda>g. []) example_options"


subsection \<open>The kinds of failure\<close>






subsection \<open>The exception that ends the builder\<close>

text \<open>
  The error of a result under a wrong name. The exception the last factory call raised,
  from the log of the calls. \<open>handler_error\<close>: the exception the handler was entered with
  when it deferred the key \<open>q\<close>, which is the builder's own \<open>XMLSchemaTypeError\<close> when the
  value under \<open>q\<close> is none of an instance, a tuple and a list, and otherwise the one the last
  factory call raised. \<open>terminal_error\<close>: what the handler raises when the deferred keys are as
  many as \<open>errors_counter\<close>, from the state it leaves: the first lookup failure recorded in the
  pass, or else a structural parse error with the message of the exception of the last
  deferred key and the element bound to \<open>elem\<close>. \<open>exhausted\<close>: the builder has ended with this
  error, in a pass after the first, with keys deferred. \<open>builder_fault\<close>: the exceptions of
  Python that the builder's own statements raise on a map no loader makes (a key that is
  not in the map, a list with an item that cannot be unpacked, an empty list, a name that
  is not bound, an instance without element in the handler).
\<close>

definition wrong_result_name :: error where
  "wrong_result_name = XMLSchemaParseError ''wrong result name'' None"

definition last_raised :: "call list \<Rightarrow> error option" where
  "last_raised cs =
     (case rev cs of
        [] \<Rightarrow> None
      | (q, e, s, previous, res) # others \<Rightarrow> (case res of Inl err \<Rightarrow> Some err | Inr result \<Rightarrow> None))"




definition builder_fault :: "error \<Rightarrow> bool" where
  "builder_fault err =
     (err \<in> set (map PyError
        [''KeyError'', ''TypeError'', ''IndexError'', ''UnboundLocalError'', ''AttributeError'']))"







section \<open>Properties of the decoded-data container\<close>

lemma iter_tag_filter:
  "iter_tag e t = filter (\<lambda>x. t = ''*'' \<or> t = data_tag x) (self_and_descendants e)"
proof (induction e t rule: iter_tag.induct)
  case (1 tg v xe xt cs t)
  have "concat (map (\<lambda>child. iter_tag child t) cs) =
        concat (map (\<lambda>child. filter (\<lambda>x. t = ''*'' \<or> t = data_tag x) (self_and_descendants child)) cs)"
    using 1 by (intro arg_cong [where f = concat] map_cong) auto
  then show ?case by (simp add: filter_concat comp_def)
qed

text \<open>
  C9 (as amended). \<open>iter(tag)\<close> yields, in depth-first order, the element and then its
  descendants, keeping exactly the elements that match: every element when the tag is
  absent or is the wildcard \<open>'*'\<close>, and otherwise the elements whose tag equals the
  argument. The empty string is no wildcard: it is compared with the tags like any other
  string.
\<close>

theorem iter_filters_preorder:
  "iter e tag_arg =
     filter (\<lambda>x. tag_arg = None \<or> tag_arg = Some ''*'' \<or> tag_arg = Some (data_tag x))
       (self_and_descendants e)"
  by (cases tag_arg) (auto simp: iter_def iter_tag_filter intro: filter_cong)

text \<open>The claim as stated fails for the empty string: on a tree whose tags are \<open>a\<close> and
  \<open>b\<close>, \<open>iter('')\<close> yields nothing.\<close>

theorem iter_empty_string_counterexample:
  "iter (DataElement ''a'' None None None [DataElement ''b'' None None None []] :: nat data_element) (Some '''') = []"
  by (simp add: iter_def)

text \<open>
  C10. The property \<open>xsd_type\<close> gives the override when one is set, whatever the bound
  element says; without an override it gives the type of the bound element, and \<open>None\<close>
  when there is no binding either. Assigning \<open>xsd_type\<close> changes the override and nothing
  else: the binding, the tag, the value and the children stay.
\<close>

theorem xsd_type_precedence:
  "(xsd_type_field e = Some t \<longrightarrow> xsd_type e = Some t) \<and>
   (xsd_type_field e = None \<and> xsd_element e = Some b \<longrightarrow> xsd_type e = type_attr b) \<and>
   (xsd_type_field e = None \<and> xsd_element e = None \<longrightarrow> xsd_type e = None) \<and>
   xsd_type (set_xsd_type e (Some t')) = Some t' \<and>
   xsd_type_field (set_xsd_type e new_type) = new_type \<and>
   xsd_element (set_xsd_type e new_type) = xsd_element e \<and>
   data_tag (set_xsd_type e new_type) = data_tag e \<and>
   data_value (set_xsd_type e new_type) = data_value e \<and>
   data_children (set_xsd_type e new_type) = data_children e"
  by (cases e) (auto simp: xsd_type_def)

text \<open>An element bound to a schema element of type 1 and overridden with type 2.\<close>

theorem xsd_type_precedence_witness:
  "xsd_type (DataElement ''a'' None (Some \<lparr>type_attr = Some (1::nat)\<rparr>) (Some 2) []) = Some 2 \<and>
   xsd_type (set_xsd_type (DataElement ''a'' None (Some \<lparr>type_attr = Some (1::nat)\<rparr>) (Some 2) []) (Some 3)) = Some 3 \<and>
   xsd_element (set_xsd_type (DataElement ''a'' None (Some \<lparr>type_attr = Some (1::nat)\<rparr>) (Some 2) []) None)
     = Some \<lparr>type_attr = Some 1\<rparr>"
proof -
  have h: "xsd_type_field (DataElement ''a'' None (Some \<lparr>type_attr = Some (1::nat)\<rparr>) (Some 2) []) = Some 2"
    by simp
  from xsd_type_precedence [of "DataElement ''a'' None (Some \<lparr>type_attr = Some (1::nat)\<rparr>) (Some 2) []"
        2 "\<lparr>type_attr = Some 1\<rparr>" 3 None] h
  show ?thesis by simp
qed


section \<open>Properties of the Tag Scanner\<close>

lemma length_concat_singletons:
  "length (concat (map (\<lambda>el. if P el then [y] else []) xs)) = length (filter P xs)"
  by (induction xs) auto

lemma set_concat_matches:
  "set (concat (map (\<lambda>el. if P el then [el] else []) xs)) = {x \<in> set xs. P x}"
  by (induction xs) auto

text \<open>
  C3 (as amended). For a single document, every item the scanner yields is an element
  found by the document's query whose tag equals the target tag. For a list of
  documents the scanner yields single items, not pairs: one item for every element with
  the target tag that the query of each document finds.
\<close>

theorem scanner_yields:
  "(\<forall>x \<in> set (create_iterfind_by_tag query tg (One e) path nss).
      tag x = tg \<and> x \<in> set (query e (path_or_tag path tg) (namespaces_or_empty nss))) \<and>
   length (create_iterfind_by_tag query tg (Many els) path nss) =
     sum_list (map (\<lambda>d. length (filter (\<lambda>x. tag x = tg)
        (query d (path_or_tag path tg) (namespaces_or_empty nss)))) els)"
proof -
  have "length (concat (map (\<lambda>outer. concat (map (\<lambda>el. if tag el = tg then [outer] else [])
            (query outer (path_or_tag path tg) (namespaces_or_empty nss)))) els)) =
        sum_list (map (\<lambda>d. length (filter (\<lambda>x. tag x = tg)
            (query d (path_or_tag path tg) (namespaces_or_empty nss)))) els)"
    by (induction els) (simp_all add: length_concat_singletons)
  then show ?thesis
    by (simp add: create_iterfind_by_tag_def set_concat_matches)
qed

text \<open>The claim as stated fails on a list: for a schema document with one \<open>import\<close>
  child, the only item yielded is the document itself, which is neither a pair nor an
  element with the target tag.\<close>

theorem scanner_list_counterexample:
  "create_iterfind_by_tag children_by_tag ''import''
      (Many [Element ''schema'' [] [Element ''import'' [] []]]) None None
     = [Element ''schema'' [] [Element ''import'' [] []]] \<and>
   tag (Element ''schema'' [] [Element ''import'' [] []]) \<noteq> ''import''"
  by (simp add: create_iterfind_by_tag_def children_by_tag_def path_or_tag_def namespaces_or_empty_def)

text \<open>A document with one \<open>import\<close> child among two, and a list of one document with two
  \<open>import\<close> children.\<close>

theorem scanner_yields_witness:
  "create_iterfind_by_tag children_by_tag ''import''
      (One (Element ''schema'' [] [Element ''import'' [] [], Element ''include'' [] []])) None None
     = [Element ''import'' [] []] \<and> tag (Element ''import'' [] []) = ''import'' \<and>
   length (create_iterfind_by_tag children_by_tag ''import''
      (Many [Element ''schema'' [] [Element ''import'' [] [], Element ''import'' [] []]]) None None) = 2"
  using scanner_yields [of children_by_tag "''import''" "Element ''schema'' [] [Element ''import'' [] [], Element ''include'' [] []]" None None
     "[Element ''schema'' [] [Element ''import'' [] [], Element ''import'' [] []]]"]
  by (simp add: create_iterfind_by_tag_def children_by_tag_def path_or_tag_def namespaces_or_empty_def)

section \<open>Properties of the Global Registry: cached views\<close>

lemma get_globals_keeps_entries:
  "get_globals ext self map_name ns fqn_keys = (r, self') \<Longrightarrow>
   map_of (view_cache self) k = Some v \<Longrightarrow> map_of (view_cache self') k = Some v"
  by (auto simp: get_globals_def update_conv' split: option.splits sum.splits)

lemma get_globals_many_keeps_entries:
  "map_of (view_cache self) k = Some v \<Longrightarrow>
     map_of (view_cache (get_globals_many ext self requests)) k = Some v"
proof (induction requests arbitrary: self)
  case Nil
  then show ?case by (simp add: get_globals_many_def)
next
  case (Cons req requests)
  obtain mn ns fq where req: "req = (mn, ns, fq)" by (cases req)
  obtain r self1 where g: "get_globals ext self mn ns fq = (r, self1)"
    by (cases "get_globals ext self mn ns fq")
  from get_globals_keeps_entries [OF g Cons.prems]
  have "map_of (view_cache self1) k = Some v" .
  from Cons.IH [OF this] g req show ?case by (simp add: get_globals_many_def)
qed

lemma get_globals_hit:
  "map_of (view_cache self) (map_name, ns, fqn_keys) = Some v \<Longrightarrow>
     get_globals ext self map_name ns fqn_keys = (Inr v, self)"
  by (simp add: get_globals_def)

lemma get_globals_miss:
  "map_of (view_cache self) (map_name, ns, fqn_keys) = None \<Longrightarrow>
     fst (get_globals ext self map_name ns fqn_keys) = compute_view ext self map_name ns fqn_keys"
  by (simp add: get_globals_def split: sum.splits)

lemma set_field_view_cache [simp]: "view_cache (set_field f m self) = view_cache self"
  by (cases f) simp_all

lemma load_step_keeps_view_cache: "keeps_view_cache (load_step query get_attr tg f)"
  by (simp add: keeps_view_cache_def load_step_def split: prod.splits sum.splits)

lemma build_step_keeps_view_cache: "keeps_view_cache (build_step set_order fac tg f)"
  by (simp add: keeps_view_cache_def build_step_def Let_def split: prod.splits option.splits)

lemma update_base_elements_keeps_view_cache: "keeps_view_cache (update_base_elements iter_elements)"
  by (simp add: keeps_view_cache_def update_base_elements_def split: prod.splits)

lemma mark_built_keeps_view_cache: "keeps_view_cache mark_built"
  by (simp add: keeps_view_cache_def mark_built_def split: prod.splits)

lemma run_steps_keeps_view_cache:
  "list_all keeps_view_cache steps \<Longrightarrow> keeps_view_cache (run_steps steps)"
proof (induction steps)
  case Nil
  then show ?case by (simp add: keeps_view_cache_def)
next
  case (Cons step steps)
  then have s: "keeps_view_cache step" and r: "keeps_view_cache (run_steps steps)" by simp_all
  show ?case
    unfolding keeps_view_cache_def
  proof
    fix x
    obtain r1 x1 where sx: "step x = (r1, x1)" by (cases "step x")
    from s sx have v1: "view_cache (fst x1) = view_cache (fst x)"
      unfolding keeps_view_cache_def by (metis fst_conv snd_conv)
    from r have v2: "view_cache (fst (snd (run_steps steps x1))) = view_cache (fst x1)"
      unfolding keeps_view_cache_def by blast
    from sx v1 v2 show "view_cache (fst (snd (run_steps (step # steps) x))) = view_cache (fst x)"
      by (cases r1) simp_all
  qed
qed

lemma build_keeps_view_cache:
  "keeps_view_cache (build set_order query get_attr iter_elements kwargs)"
  unfolding build_def
  by (rule run_steps_keeps_view_cache)
    (simp add: load_step_keeps_view_cache build_step_keeps_view_cache
      update_base_elements_keeps_view_cache mark_built_keeps_view_cache)

text \<open>
  C8. When \<open>get_globals(map_name, namespace, fqn_keys)\<close> returns a view \<open>v\<close>, the view
  is in the cache under the key (map name, namespace, key shape), and a second call with
  the same arguments returns \<open>v\<close> and leaves the registry as it is. So does a later call
  with the same arguments after anything that is not \<open>clear()\<close>: after any calls of
  \<open>get_globals\<close> with any arguments (none of them evicts an entry), a \<open>build()\<close>, returning
  or raising, with any factories, and further calls of \<open>get_globals\<close>; and on every registry
  whose cache holds \<open>v\<close> under the key, whatever its maps have become. A call whose key is
  not in the cache computes the view of its own arguments from the maps as they are. \<open>clear()\<close>
  empties the cache, so that the next call computes the view from the maps as they are
  then. (Views are values here: "the same view object" is the equal view.)
\<close>

theorem get_globals_cached:
  assumes "get_globals ext self map_name ns fqn_keys = (Inr v, self')"
  shows "map_of (view_cache self') (map_name, ns, fqn_keys) = Some v \<and>
     get_globals ext self' map_name ns fqn_keys = (Inr v, self') \<and>
     (\<forall>before set_order query get_attr iter_elements kwargs w after.
        get_globals ext
            (get_globals_many ext
               (fst (snd (build set_order query get_attr iter_elements kwargs
                            (get_globals_many ext self' before, w))))
               after)
            map_name ns fqn_keys =
          (Inr v,
           get_globals_many ext
             (fst (snd (build set_order query get_attr iter_elements kwargs
                          (get_globals_many ext self' before, w))))
             after)) \<and>
     (\<forall>requests.
        get_globals ext (get_globals_many ext self' requests) map_name ns fqn_keys =
          (Inr v, get_globals_many ext self' requests)) \<and>
     (\<forall>ext' other. map_of (view_cache other) (map_name, ns, fqn_keys) = Some v \<longrightarrow>
        get_globals ext' other map_name ns fqn_keys = (Inr v, other)) \<and>
     (\<forall>ext' other. map_of (view_cache other) (map_name, ns, fqn_keys) = None \<longrightarrow>
        fst (get_globals ext' other map_name ns fqn_keys) =
          compute_view ext' other map_name ns fqn_keys) \<and>
     view_cache (clear self' remove_schemas) = [] \<and>
     fst (get_globals ext (clear self' remove_schemas) map_name ns fqn_keys) =
       compute_view ext (clear self' remove_schemas) map_name ns fqn_keys"
proof -
  have c: "map_of (view_cache self') (map_name, ns, fqn_keys) = Some v"
    using assms by (auto simp: get_globals_def update_conv' split: option.splits sum.splits)
  have 1: "get_globals ext self' map_name ns fqn_keys = (Inr v, self')"
    using c by (rule get_globals_hit)
  have 2: "\<forall>before set_order query get_attr iter_elements kwargs w after.
        get_globals ext
            (get_globals_many ext
               (fst (snd (build set_order query get_attr iter_elements kwargs
                            (get_globals_many ext self' before, w))))
               after)
            map_name ns fqn_keys =
          (Inr v,
           get_globals_many ext
             (fst (snd (build set_order query get_attr iter_elements kwargs
                          (get_globals_many ext self' before, w))))
             after)"
  proof (intro allI)
    fix before set_order query get_attr iter_elements kwargs w after
    let ?r1 = "get_globals_many ext self' before"
    let ?r2 = "fst (snd (build set_order query get_attr iter_elements kwargs (?r1, w)))"
    have c1: "map_of (view_cache ?r1) (map_name, ns, fqn_keys) = Some v"
      using c by (rule get_globals_many_keeps_entries)
    have "view_cache ?r2 = view_cache ?r1"
      using build_keeps_view_cache [of set_order query get_attr iter_elements kwargs]
      unfolding keeps_view_cache_def by (metis fst_conv)
    with c1 have "map_of (view_cache ?r2) (map_name, ns, fqn_keys) = Some v" by simp
    then have "map_of (view_cache (get_globals_many ext ?r2 after)) (map_name, ns, fqn_keys) = Some v"
      by (rule get_globals_many_keeps_entries)
    then show "get_globals ext (get_globals_many ext ?r2 after) map_name ns fqn_keys =
        (Inr v, get_globals_many ext ?r2 after)"
      by (rule get_globals_hit)
  qed
  have 3: "\<forall>requests.
        get_globals ext (get_globals_many ext self' requests) map_name ns fqn_keys =
          (Inr v, get_globals_many ext self' requests)"
    using get_globals_many_keeps_entries [OF c] by (simp add: get_globals_hit)
  have 4: "\<forall>ext' other. map_of (view_cache other) (map_name, ns, fqn_keys) = Some v \<longrightarrow>
        get_globals ext' other map_name ns fqn_keys = (Inr v, other)"
    by (simp add: get_globals_hit)
  have 5: "\<forall>ext' other. map_of (view_cache other) (map_name, ns, fqn_keys) = None \<longrightarrow>
        fst (get_globals ext' other map_name ns fqn_keys) =
          compute_view ext' other map_name ns fqn_keys"
    by (simp add: get_globals_miss)
  have 6: "view_cache (clear self' remove_schemas) = []"
    by (simp add: clear_def Let_def)
  have 7: "fst (get_globals ext (clear self' remove_schemas) map_name ns fqn_keys) =
       compute_view ext (clear self' remove_schemas) map_name ns fqn_keys"
    by (rule get_globals_miss) (simp add: 6)
  from c 1 2 3 4 5 6 7 show ?thesis by blast
qed

text \<open>On the example registry: the view of the elements of \<open>urn:a\<close> holds the element
  \<open>e1\<close>; the second call returns it again and changes nothing; so does the call after five
  other calls (another namespace and key shape, which gives the element \<open>e2\<close> under its
  local name, the index of the namespaces, the cache itself, an attribute without items,
  which raises, and the same namespace with local names); after \<open>clear()\<close> the view is
  computed anew and is empty.\<close>

theorem get_globals_cached_witness:
  "fst (get_globals example_externals example_registry ''elements'' ''urn:a'' True) =
     Inr [(QNameKey (''urn:a'', ''e1''), ComponentValue element_e1_instance)] \<and>
   get_globals example_externals
       (snd (get_globals example_externals example_registry ''elements'' ''urn:a'' True))
       ''elements'' ''urn:a'' True =
     (Inr [(QNameKey (''urn:a'', ''e1''), ComponentValue element_e1_instance)],
      snd (get_globals example_externals example_registry ''elements'' ''urn:a'' True)) \<and>
   fst (get_globals example_externals
          (snd (get_globals example_externals example_registry ''elements'' ''urn:a'' True))
          ''elements'' ''urn:b'' False) =
     Inr [(StrKey ''e2'', ComponentValue element_e2_instance)] \<and>
   fst (get_globals example_externals
          (snd (get_globals example_externals example_registry ''elements'' ''urn:a'' True))
          ''validator'' [] True) =
     Inl (PyError ''AttributeError'') \<and>
   fst (get_globals example_externals
          (get_globals_many example_externals
             (snd (get_globals example_externals example_registry ''elements'' ''urn:a'' True))
             example_requests)
          ''elements'' ''urn:a'' True) =
     Inr [(QNameKey (''urn:a'', ''e1''), ComponentValue element_e1_instance)] \<and>
   length (view_cache
     (get_globals_many example_externals
        (snd (get_globals example_externals example_registry ''elements'' ''urn:a'' True))
        example_requests)) = 4 \<and>
   fst (get_globals example_externals
          (clear (snd (get_globals example_externals example_registry ''elements'' ''urn:a'' True))
             False)
          ''elements'' ''urn:a'' True) = Inr []"
proof -
  let ?v = "[(QNameKey (''urn:a'', ''e1''), ComponentValue element_e1_instance)]"
  let ?r = "example_registry\<lparr>view_cache := [((''elements'', ''urn:a'', True), ?v)]\<rparr>"
  have computed: "compute_view example_externals example_registry ''elements'' ''urn:a'' True = Inr ?v"
    by code_simp
  have h: "get_globals example_externals example_registry ''elements'' ''urn:a'' True = (Inr ?v, ?r)"
  proof -
    have empty: "view_cache example_registry = []" by (simp add: example_registry_def)
    show ?thesis by (simp add: get_globals_def computed empty)
  qed
  have other: "fst (get_globals example_externals ?r ''elements'' ''urn:b'' False) =
      Inr [(StrKey ''e2'', ComponentValue element_e2_instance)]"
    by code_simp
  have raising: "fst (get_globals example_externals ?r ''validator'' [] True) =
      Inl (PyError ''AttributeError'')"
    by code_simp
  have entries: "length (view_cache (get_globals_many example_externals ?r example_requests)) = 4"
    by code_simp
  have cleared: "compute_view example_externals (clear ?r False) ''elements'' ''urn:a'' True = Inr []"
    by code_simp
  note cached = get_globals_cached [OF h, of False]
  have again: "get_globals example_externals ?r ''elements'' ''urn:a'' True = (Inr ?v, ?r)"
    using cached by (elim conjE)
  have later: "get_globals example_externals
      (get_globals_many example_externals ?r example_requests) ''elements'' ''urn:a'' True =
      (Inr ?v, get_globals_many example_externals ?r example_requests)"
    using cached by (elim conjE allE)
  have anew: "fst (get_globals example_externals (clear ?r False) ''elements'' ''urn:a'' True) =
      compute_view example_externals (clear ?r False) ''elements'' ''urn:a'' True"
    using cached by (elim conjE)
  show ?thesis
    by (simp only: h fst_conv snd_conv again later other raising entries anew cleared simp_thms)
qed


section \<open>Properties of the Declaration Builder\<close>

subsection \<open>Entries that are already resolved\<close>

text \<open>
  C4 (as amended). For every key a pass visits whose entry is a built instance: the entry
  is skipped, with no call of the factory and no change but to the variable \<open>elem\<close>, when
  the instance has no element, or its element's tag is not the target tag, or its schema
  is built. Otherwise the factory is called once for it, with the instance as the
  previous instance (the last item of a recorded call is what the factory returned).
\<close>

theorem resolved_entry_skipped_or_rebuilt:
  "map_of (xsd_globals st) q = Some (Resolved b) \<Longrightarrow>
     (case elem b of
        None \<Rightarrow> for_body fac target built ec q st = (None, st\<lparr>elem_var := Some None\<rparr>)
      | Some e \<Rightarrow>
          if tag e \<noteq> target \<or> built (schema b)
          then for_body fac target built ec q st = (None, st\<lparr>elem_var := Some (Some e)\<rparr>)
          else calls (snd (for_body fac target built ec q st)) =
                 calls st @ [(q, e, schema b, Some b,
                    fst (fac (xsd_globals st) (world st) e (schema b) (Some b)))])"
proof (cases "elem b")
  case None
  assume "map_of (xsd_globals st) q = Some (Resolved b)"
  with None show ?thesis by (simp add: for_body_def try_part_def)
next
  case (Some e)
  assume m: "map_of (xsd_globals st) q = Some (Resolved b)"
  show ?thesis
  proof (cases "tag e \<noteq> target \<or> built (schema b)")
    case True
    with Some m show ?thesis by (auto simp: for_body_def try_part_def)
  next
    case False
    let ?st1 = "st\<lparr>elem_var := Some (Some e)\<rparr>"
    obtain r2 st2 where cf: "call_factory fac q e (schema b) (Some b) ?st1 = (r2, st2)"
      by (cases "call_factory fac q e (schema b) (Some b) ?st1")
    then have c2: "calls st2 = calls st @ [(q, e, schema b, Some b,
          fst (fac (xsd_globals st) (world st) e (schema b) (Some b)))]" "elem_var st2 = Some (Some e)"
      by (auto simp: call_factory_def split: prod.splits sum.splits)
    have tp: "try_part fac target built q (Resolved b) st =
       (case r2 of Inl err \<Rightarrow> Raised err | Inr x \<Rightarrow> Completed (Some x), st2)"
      using Some False cf by (simp add: try_part_def split: sum.splits)
    have "calls (snd (for_body fac target built ec q st)) = calls st2"
      using m tp c2(2)
      by (auto simp: for_body_def except_clause_def else_clause_def defer_key_def Let_def
            split: sum.splits option.splits)
    with c2 Some False show ?thesis by simp
  qed
qed

text \<open>The claim as stated fails: for a map holding one built attribute group whose schema
  is not built, the builder for attribute groups calls the factory for it.\<close>

theorem resolved_entry_rebuilt_counterexample:
  "calls (snd (build_xsd_map (\<lambda>ks. ks) ready_factory XSD_ATTRIBUTE_GROUP_TAG (\<lambda>s. False)
       [((''urn:a'', ''a''), Resolved built_group_a)] 0)) =
     [((''urn:a'', ''a''), group_a, example_schema, Some built_group_a,
       Inr ((''urn:a'', ''a''), \<lparr>elem = Some group_a, schema = example_schema, ident = 0\<rparr>))]"
  by code_simp

text \<open>The same entry, first with its schema built, then not.\<close>

theorem resolved_entry_skipped_or_rebuilt_witness:
  "for_body ready_factory XSD_ATTRIBUTE_GROUP_TAG (\<lambda>s. True) 0 (''urn:a'', ''a'')
     (initial_state [((''urn:a'', ''a''), Resolved built_group_a)] 0) =
   (None, (initial_state [((''urn:a'', ''a''), Resolved built_group_a)] 0)\<lparr>elem_var := Some (Some group_a)\<rparr>) \<and>
   calls (snd (for_body ready_factory XSD_ATTRIBUTE_GROUP_TAG (\<lambda>s. False) 0 (''urn:a'', ''a'')
     (initial_state [((''urn:a'', ''a''), Resolved built_group_a)] 0))) =
     [((''urn:a'', ''a''), group_a, example_schema, Some built_group_a,
       Inr ((''urn:a'', ''a''), \<lparr>elem = Some group_a, schema = example_schema, ident = 0\<rparr>))]"
proof -
  let ?st = "initial_state [((''urn:a'', ''a''), Resolved built_group_a)] (0::nat)"
  have h: "map_of (xsd_globals ?st) (''urn:a'', ''a'') = Some (Resolved built_group_a)"
    by (simp add: initial_state_def)
  have e: "elem built_group_a = Some group_a" "tag group_a = XSD_ATTRIBUTE_GROUP_TAG"
    "schema built_group_a = example_schema" "calls ?st = []"
    "fst (ready_factory (xsd_globals ?st) (world ?st) group_a example_schema (Some built_group_a)) =
       Inr ((''urn:a'', ''a''), \<lparr>elem = Some group_a, schema = example_schema, ident = 0\<rparr>)"
    by (simp_all add: built_group_a_def group_a_def initial_state_def ready_factory_def
          name_of_elem_def example_schema_def)
  from resolved_entry_skipped_or_rebuilt [OF h, of ready_factory XSD_ATTRIBUTE_GROUP_TAG "\<lambda>s. True" 0]
       resolved_entry_skipped_or_rebuilt [OF h, of ready_factory XSD_ATTRIBUTE_GROUP_TAG "\<lambda>s. False" 0]
  show ?thesis by (simp add: e)
qed

subsection \<open>When the exhaustion error is raised\<close>







section \<open>Properties of the Declaration Loader\<close>

lemma store_declaration_dom:
  "map_of m qn \<noteq> None \<Longrightarrow> (map_of (store_declaration qn e s m) k = None) = (map_of m k = None)"
  by (auto simp: store_declaration_def update_conv' split: option.splits entry.splits)

lemma append_redefinitions_dom:
  "append_redefinitions reds m = (r, m2) \<Longrightarrow> (map_of m2 k = None) = (map_of m k = None)"
proof (induction reds arbitrary: m)
  case Nil
  then show ?case by simp
next
  case (Cons red rest)
  obtain qn e s where red: "red = (qn, e, s)" by (cases red)
  show ?case
  proof (cases "map_of m qn = None")
    case True
    with Cons.prems red show ?thesis by simp
  next
    case False
    with Cons.prems red have "append_redefinitions rest (store_declaration qn e s m) = (r, m2)"
      by simp
    from Cons.IH [OF this] store_declaration_dom [OF False] show ?thesis by simp
  qed
qed

lemma append_redefinitions_orphan:
  "(qn, e, s) \<in> set reds \<Longrightarrow> map_of m qn = None \<Longrightarrow>
     \<exists>qn' e' s' m2. append_redefinitions reds m =
         (Some (XMLSchemaParseError ''not a redefinition!'' (Some e')), m2) \<and>
       (qn', e', s') \<in> set reds \<and> map_of m qn' = None"
proof (induction reds arbitrary: m)
  case Nil
  then show ?case by simp
next
  case (Cons red rest)
  obtain qn1 e1 s1 where red: "red = (qn1, e1, s1)" by (cases red)
  show ?case
  proof (cases "map_of m qn1 = None")
    case True
    with red have "append_redefinitions (red # rest) m =
        (Some (XMLSchemaParseError ''not a redefinition!'' (Some e1)), m)" by simp
    moreover from red have "(qn1, e1, s1) \<in> set (red # rest)" by simp
    ultimately show ?thesis using True by blast
  next
    case False
    with Cons.prems red have mem: "(qn, e, s) \<in> set rest" by auto
    from Cons.prems(2) store_declaration_dom [OF False, of e1 s1 qn]
    have "map_of (store_declaration qn1 e1 s1 m) qn = None" by simp
    from Cons.IH [OF mem this] obtain qn' e' s' m2 where
      r: "append_redefinitions rest (store_declaration qn1 e1 s1 m) =
            (Some (XMLSchemaParseError ''not a redefinition!'' (Some e')), m2)"
         "(qn', e', s') \<in> set rest" "map_of (store_declaration qn1 e1 s1 m) qn' = None"
      by blast
    from r(3) store_declaration_dom [OF False, of e1 s1 qn'] have "map_of m qn' = None" by simp
    moreover from r(1) red False have "append_redefinitions (red # rest) m =
        (Some (XMLSchemaParseError ''not a redefinition!'' (Some e')), m2)"
      by (simp del: not_None_eq)
    moreover from r(2) have "(qn', e', s') \<in> set (red # rest)" by simp
    ultimately show ?thesis by blast
  qed
qed

text \<open>
  C5. When the scan of the schemas has ended and one of the staged redefinitions has a
  qualified name that has no entry in the map, \<open>load_xsd_globals\<close> raises the parse error
  "not a redefinition!" for the element of such a redefinition. This error is not one of
  those the builder catches and retries; and no name without an entry after the scan has
  one when the error is raised: no orphan redefinition has been appended.
\<close>

theorem orphan_redefinition_is_parse_error:
  "scan_schemas query get_attr filter_function built schemas m [] = (None, m1, reds) \<Longrightarrow>
   (qn, e, s) \<in> set reds \<Longrightarrow> map_of m1 qn = None \<Longrightarrow>
     \<exists>qn' e' s' m2.
       load_xsd_globals query get_attr filter_function built m schemas =
         (Some (XMLSchemaParseError ''not a redefinition!'' (Some e')), m2) \<and>
       \<not> is_caught (XMLSchemaParseError ''not a redefinition!'' (Some e')) \<and>
       (qn', e', s') \<in> set reds \<and> map_of m1 qn' = None \<and>
       (\<forall>k. map_of m1 k = None \<longrightarrow> map_of m2 k = None)"
proof -
  assume sc: "scan_schemas query get_attr filter_function built schemas m [] = (None, m1, reds)"
    and mem: "(qn, e, s) \<in> set reds" and orphan: "map_of m1 qn = None"
  from append_redefinitions_orphan [OF mem orphan] obtain qn' e' s' m2 where
    r: "append_redefinitions reds m1 = (Some (XMLSchemaParseError ''not a redefinition!'' (Some e')), m2)"
       "(qn', e', s') \<in> set reds" "map_of m1 qn' = None"
    by blast
  from sc r(1) have "load_xsd_globals query get_attr filter_function built m schemas =
      (Some (XMLSchemaParseError ''not a redefinition!'' (Some e')), m2)"
    by (simp add: load_xsd_globals_def)
  moreover have "\<forall>k. map_of m1 k = None \<longrightarrow> map_of m2 k = None"
    using append_redefinitions_dom [OF r(1)] by simp
  moreover have "\<not> is_caught (XMLSchemaParseError ''not a redefinition!'' (Some e'))"
    by (simp add: is_caught_def)
  ultimately show ?thesis using r(2,3) by blast
qed

text \<open>Only a \<open>redefine\<close> block for the element \<open>E1\<close> is loaded into an empty map.\<close>

theorem orphan_redefinition_is_parse_error_witness:
  "fst (load_xsd_globals children_by_tag attribute_of (iterfind_xsd children_by_tag XSD_ELEMENT_TAG)
       (\<lambda>s. False) [] [redefine_only_schema]) =
     Some (XMLSchemaParseError ''not a redefinition!'' (Some element_e1))"
proof -
  have sc: "scan_schemas children_by_tag attribute_of (iterfind_xsd children_by_tag XSD_ELEMENT_TAG)
       (\<lambda>s. False) [redefine_only_schema] [] [] =
       (None, [], [((''urn:r'', ''E1''), element_e1, redefine_only_schema)])"
    by code_simp
  have mem: "((''urn:r'', ''E1''), element_e1, redefine_only_schema) \<in>
       set [((''urn:r'', ''E1''), element_e1, redefine_only_schema)]" by simp
  have orphan: "map_of ([] :: xsd_map) (''urn:r'', ''E1'') = None" by simp
  from orphan_redefinition_is_parse_error [OF sc mem orphan]
  show ?thesis by auto
qed

subsection \<open>The order of a chain\<close>

text \<open>Loading appends to the items of every key: first the declarations found under
  the roots, then the redefinitions, both in the order of the schemas.\<close>

lemma iterfind_xsd_tags: "\<forall>e. \<forall>x \<in> set (iterfind_xsd query tg e). tag x = tg"
  by (auto simp: iterfind_xsd_def create_iterfind_by_tag_def split: if_splits)

lemma store_declaration_links:
  "links_of (map_of (store_declaration qn e s m) k) =
     (if k = qn then links_of (map_of m qn) @ [Raw e s] else links_of (map_of m k))"
  by (auto simp: store_declaration_def update_conv' split: option.splits entry.splits)

lemma load_declarations_links:
  "load_declarations get_attr s es m = (None, m') \<Longrightarrow>
     links_of (map_of m' k) =
       links_of (map_of m k) @ map (\<lambda>(e, s). Raw e s) (map (\<lambda>e. (e, s)) (filter (named get_attr s k) es))"
proof (induction es arbitrary: m)
  case Nil
  then show ?case by simp
next
  case (Cons e es)
  show ?case
  proof (cases "get_attr e ''name''")
    case (Inl err)
    with Cons.prems show ?thesis by simp
  next
    case (Inr name)
    let ?qn = "get_qname (target_namespace s) name"
    from Cons.prems Inr have "load_declarations get_attr s es (store_declaration ?qn e s m) = (None, m')"
      by simp
    from Cons.IH [OF this] Inr show ?thesis
      by (auto simp: store_declaration_links named_def)
  qed
qed

lemma stage_redefinitions_staged:
  "stage_redefinitions get_attr s cs reds = (None, reds') \<Longrightarrow>
     staged_for k reds' = staged_for k reds @ map (\<lambda>e. (e, s)) (filter (named get_attr s k) cs)"
proof (induction cs arbitrary: reds)
  case Nil
  then show ?case by simp
next
  case (Cons c cs)
  show ?case
  proof (cases "get_attr c ''name''")
    case (Inl err)
    with Cons.prems show ?thesis by simp
  next
    case (Inr name)
    let ?qn = "get_qname (target_namespace s) name"
    from Cons.prems Inr have "stage_redefinitions get_attr s cs (reds @ [(?qn, c, s)]) = (None, reds')"
      by simp
    from Cons.IH [OF this] Inr show ?thesis
      by (auto simp: staged_for_def named_def)
  qed
qed

lemma scan_schemas_links:
  "scan_schemas query get_attr filter_function built schemas m reds = (None, m', reds') \<Longrightarrow>
     links_of (map_of m' k) =
       links_of (map_of m k) @
         map (\<lambda>(e, s). Raw e s) (declared_for get_attr filter_function built schemas k) \<and>
     staged_for k reds' =
       staged_for k reds @ redefined_for query get_attr filter_function built schemas k"
proof (induction schemas arbitrary: m reds)
  case Nil
  then show ?case by (simp add: declared_for_def redefined_for_def)
next
  case (Cons s ss)
  show ?case
  proof (cases "built s")
    case True
    with Cons.prems have "scan_schemas query get_attr filter_function built ss m reds = (None, m', reds')"
      by simp
    from Cons.IH [OF this] True show ?thesis by (simp add: declared_for_def redefined_for_def)
  next
    case False
    let ?cs = "concat (map filter_function (iterfind_xsd_redefine query (root s)))"
    from Cons.prems False obtain reds1 m1 where
      st: "stage_redefinitions get_attr s ?cs reds = (None, reds1)" and
      ld: "load_declarations get_attr s (filter_function (root s)) m = (None, m1)" and
      rest: "scan_schemas query get_attr filter_function built ss m1 reds1 = (None, m', reds')"
      by (auto split: prod.splits option.splits)
    from Cons.IH [OF rest] load_declarations_links [OF ld, of k]
      stage_redefinitions_staged [OF st, of k] False
    show ?thesis by (simp add: declared_for_def redefined_for_def)
  qed
qed

lemma append_redefinitions_links:
  "append_redefinitions reds m = (None, m') \<Longrightarrow>
     links_of (map_of m' k) = links_of (map_of m k) @ map (\<lambda>(e, s). Raw e s) (staged_for k reds)"
proof (induction reds arbitrary: m)
  case Nil
  then show ?case by (simp add: staged_for_def)
next
  case (Cons red rest)
  obtain qn e s where red: "red = (qn, e, s)" by (cases red)
  from Cons.prems red have "append_redefinitions rest (store_declaration qn e s m) = (None, m')"
    by (auto split: if_splits)
  from Cons.IH [OF this] red show ?case
    by (auto simp: store_declaration_links staged_for_def)
qed

lemma load_xsd_globals_links:
  assumes "load_xsd_globals query get_attr filter_function built m schemas = (None, m')"
  shows "links_of (map_of m' k) =
       links_of (map_of m k) @
         map (\<lambda>(e, s). Raw e s)
           (declared_for get_attr filter_function built schemas k @
            redefined_for query get_attr filter_function built schemas k)"
proof -
  from assms obtain m1 reds where
    sc: "scan_schemas query get_attr filter_function built schemas m [] = (None, m1, reds)" and
    ap: "append_redefinitions reds m1 = (None, m')"
    by (auto simp: load_xsd_globals_def split: prod.splits option.splits)
  from scan_schemas_links [OF sc, of k] append_redefinitions_links [OF ap, of k]
  show ?thesis by (simp add: staged_for_def)
qed

lemma links_of_chain:
  "links_of v = links \<Longrightarrow> 2 \<le> length links \<Longrightarrow> v = Some (Chain links)"
  by (cases v rule: links_of.cases) auto

lemma declared_tags:
  "(e, s) \<in> set (declared_for get_attr (iterfind_xsd query tg) built schemas k) \<Longrightarrow> tag e = tg"
  using iterfind_xsd_tags [of query tg] by (auto simp: declared_for_def split: if_splits)

lemma redefined_tags:
  "(e, s) \<in> set (redefined_for query get_attr (iterfind_xsd query tg) built schemas k) \<Longrightarrow> tag e = tg"
  using iterfind_xsd_tags [of query tg] by (auto simp: redefined_for_def split: if_splits)


section \<open>Properties of chains: loader and builder together\<close>

lemma call_factory_succeeds:
  "fac (xsd_globals st) (world st) e s prev = (Inr (q, x), w') \<Longrightarrow>
     call_factory fac q e s prev st =
       (Inr x, st\<lparr>world := w', calls := calls st @ [(q, e, s, prev, Inr (q, x))],
                 res_qname_var := Some q\<rparr>)"
  by (simp add: call_factory_def)

lemma walk_chain_succeeds:
  assumes "always_succeeds fac q decls" "\<forall>(e, s) \<in> set decls. tag e = target"
  shows "\<exists>xs st'. walk_chain fac target q obj (map (\<lambda>(e, s). Raw e s) decls) inst st =
              (Completed (if decls = [] then inst else Some (last xs)), st') \<and>
            length xs = length decls \<and>
            calls st' = calls st @ threaded_calls q decls inst xs \<and>
            (decls \<noteq> [] \<longrightarrow> res_qname_var st' = Some q \<and> elem_var st' = Some (Some (fst (last decls))))"
  using assms
proof (induction decls arbitrary: obj inst st)
  case Nil
  show ?case by simp
next
  case (Cons d rest)
  obtain e s where d: "d = (e, s)" by (cases d)
  let ?st1 = "st\<lparr>elem_var := Some (Some e)\<rparr>"
  from Cons.prems d have tg: "tag e = target" by simp
  from Cons.prems(1) d obtain x w' where
    f: "fac (xsd_globals ?st1) (world ?st1) e s inst = (Inr (q, x), w')"
    unfolding always_succeeds_def by (meson list.set_intros(1))
  let ?st2 = "?st1\<lparr>world := w', calls := calls ?st1 @ [(q, e, s, inst, Inr (q, x))],
                 res_qname_var := Some q\<rparr>"
  let ?st3 = "?st2\<lparr>xsd_globals := AList.update q (Chain (obj[0 := Inst x])) (xsd_globals ?st2)\<rparr>"
  have step: "walk_chain fac target q obj (map (\<lambda>(e, s). Raw e s) (d # rest)) inst st =
        walk_chain fac target q (obj[0 := Inst x]) (map (\<lambda>(e, s). Raw e s) rest) (Some x) ?st3"
    using tg d call_factory_succeeds [of fac ?st1 e s inst q x w', OF f] by (simp add: Let_def)
  from Cons.prems have "always_succeeds fac q rest" "\<forall>(e, s) \<in> set rest. tag e = target"
    by (auto simp: always_succeeds_def)
  from Cons.IH [OF this, of "obj[0 := Inst x]" "Some x" ?st3] obtain xs st' where
    ih: "walk_chain fac target q (obj[0 := Inst x]) (map (\<lambda>(e, s). Raw e s) rest) (Some x) ?st3 =
           (Completed (if rest = [] then Some x else Some (last xs)), st')"
        "length xs = length rest"
        "calls st' = calls ?st3 @ threaded_calls q rest (Some x) xs"
        "rest \<noteq> [] \<longrightarrow> res_qname_var st' = Some q \<and> elem_var st' = Some (Some (fst (last rest)))"
    by blast
  have nil: "rest = [] \<Longrightarrow> st' = ?st3" using ih(1) by simp
  have "walk_chain fac target q obj (map (\<lambda>(e, s). Raw e s) (d # rest)) inst st =
          (Completed (Some (last (x # xs))), st')"
    using step ih(1,2) by (cases rest) auto
  moreover have "length (x # xs) = length (d # rest)" using ih(2) by simp
  moreover have "calls st' = calls st @ threaded_calls q (d # rest) inst (x # xs)"
    using ih(3) d by simp
  moreover have "res_qname_var st' = Some q \<and> elem_var st' = Some (Some (fst (last (d # rest))))"
    using ih(4) nil d by (cases "rest = []") auto
  ultimately show ?case by (intro exI [of _ "x # xs"] exI [of _ st']) simp
qed

lemma for_body_chain_succeeds:
  assumes "map_of (xsd_globals st) q = Some (Chain (map (\<lambda>(e, s). Raw e s) decls))"
    and "decls \<noteq> []" and "always_succeeds fac q decls" and "\<forall>(e, s) \<in> set decls. tag e = target"
  shows "\<exists>xs st'. for_body fac target built ec q st = (None, st') \<and>
            length xs = length decls \<and>
            calls st' = calls st @ threaded_calls q decls None xs \<and>
            map_of (xsd_globals st') q = Some (Resolved (last xs)) \<and>
            missing st' = missing st"
proof -
  let ?links = "map (\<lambda>(e, s). Raw e s) decls"
  from assms(2) obtain e0 s0 rest where dl: "decls = (e0, s0) # rest" by (cases decls) auto
  from walk_chain_succeeds [OF assms(3,4), of ?links None st] assms(2) obtain xs st1 where
    w: "walk_chain fac target q ?links ?links None st = (Completed (Some (last xs)), st1)"
       "length xs = length decls"
       "calls st1 = calls st @ threaded_calls q decls None xs"
       "res_qname_var st1 = Some q" "elem_var st1 = Some (Some (fst (last decls)))"
    by auto
  have tp: "try_part fac target built q (Chain ?links) st = (Completed (Some (last xs)), st1)"
    using w(1) dl by (simp add: try_part_def)
  from assms(2,4) have tg: "tag (fst (last decls)) = target"
    using last_in_set [of decls] by (auto simp: case_prod_beta)
  let ?st' = "st1\<lparr>xsd_globals := AList.update q (Resolved (last xs)) (xsd_globals st1)\<rparr>"
  have fb: "for_body fac target built ec q st = (None, ?st')"
    using assms(1) tp w(4,5) tg by (simp add: for_body_def else_clause_def)
  from try_part_frame [OF tp] have "missing st1 = missing st" by simp
  with fb w(2,3) show ?thesis
    by (intro exI [of _ xs] exI [of _ ?st']) (simp add: update_conv')
qed


lemma call_factory_other_key:
  "call_factory fac q' e s prev st = (r, st') \<Longrightarrow> q \<noteq> q' \<Longrightarrow>
     xsd_globals st' = xsd_globals st \<and> calls_for q (calls st') = calls_for q (calls st)"
  by (auto simp: call_factory_def calls_for_def split: prod.splits sum.splits)

lemma walk_chain_other_key:
  "walk_chain fac target q' obj rest inst st = (r, st') \<Longrightarrow> q \<noteq> q' \<Longrightarrow>
     map_of (xsd_globals st') q = map_of (xsd_globals st) q \<and>
     calls_for q (calls st') = calls_for q (calls st)"
proof (induction fac target q' obj rest inst st rule: walk_chain.induct)
  case (1 fac target q' obj inst st)
  then show ?case by simp
next
  case (2 fac target q' obj x rest inst st)
  then show ?case by simp
next
  case (3 fac target q' obj d rest inst st)
  then show ?case by simp
next
  case (4 fac target q' obj e s rest inst st)
  show ?case
  proof (cases "tag e \<noteq> target")
    case True
    with 4 show ?thesis by auto
  next
    case False
    obtain r2 st2 where cf: "call_factory fac q' e s inst (st\<lparr>elem_var := Some (Some e)\<rparr>) = (r2, st2)"
      by (cases "call_factory fac q' e s inst (st\<lparr>elem_var := Some (Some e)\<rparr>)")
    from call_factory_other_key [OF cf "4.prems"(2)]
    have fr: "xsd_globals st2 = xsd_globals st" "calls_for q (calls st2) = calls_for q (calls st)"
      by simp_all
    show ?thesis
    proof (cases r2)
      case (Inl err)
      with 4 False cf fr show ?thesis by auto
    next
      case (Inr x)
      with "4.prems"(1) False cf have
        "walk_chain fac target q' (obj[0 := Inst x]) rest (Some x)
           (st2\<lparr>xsd_globals := AList.update q' (Chain (obj[0 := Inst x])) (xsd_globals st2)\<rparr>) = (r, st')"
        by (simp add: Let_def)
      from "4.IH" [OF refl False cf [symmetric] Inr refl this "4.prems"(2)] fr "4.prems"(2)
      show ?thesis by (simp add: update_conv')
    qed
  qed
qed

lemma try_part_other_key:
  assumes "try_part fac target built q' obj st = (r, st')" "q \<noteq> q'"
  shows "map_of (xsd_globals st') q = map_of (xsd_globals st) q \<and>
         calls_for q (calls st') = calls_for q (calls st)"
proof (cases obj)
  case (Resolved b)
  with assms show ?thesis
    by (auto simp: try_part_def Let_def split: option.splits if_splits prod.splits sum.splits
          dest!: call_factory_other_key [where q = q])
next
  case (Single e s)
  with assms show ?thesis
    by (auto simp: try_part_def Let_def split: option.splits if_splits prod.splits sum.splits
          dest!: call_factory_other_key [where q = q])
next
  case (Chain links)
  with assms show ?thesis
    by (auto simp: try_part_def simp del: walk_chain.simps split: list.splits link.splits
          dest!: walk_chain_other_key [where q = q])
next
  case (Other d)
  with assms show ?thesis by (simp add: try_part_def)
qed

lemma else_clause_other_key:
  "else_clause target q' inst st = (r, st') \<Longrightarrow> q \<noteq> q' \<Longrightarrow>
     map_of (xsd_globals st') q = map_of (xsd_globals st) q \<and> calls st' = calls st"
  by (auto simp: else_clause_def update_conv' split: option.splits if_splits)

lemma except_clause_other_key:
  "except_clause ec q' err st = (r, st') \<Longrightarrow>
     xsd_globals st' = xsd_globals st \<and> calls st' = calls st \<and>
     set (missing st') \<subseteq> insert q' (set (missing st))"
  by (auto simp: except_clause_def defer_key_def Let_def split: option.splits if_splits)

lemma for_body_other_key:
  assumes "for_body fac target built ec q' st = (r, st')" "q \<noteq> q'"
  shows "map_of (xsd_globals st') q = map_of (xsd_globals st) q \<and>
         calls_for q (calls st') = calls_for q (calls st) \<and>
         set (missing st') \<subseteq> insert q' (set (missing st))"
proof (cases "map_of (xsd_globals st) q'")
  case None
  with assms show ?thesis by (auto simp: for_body_def)
next
  case (Some obj)
  obtain tr st1 where tp: "try_part fac target built q' obj st = (tr, st1)"
    by (cases "try_part fac target built q' obj st")
  note fr = try_part_other_key [OF tp assms(2)] try_part_frame [OF tp]
  show ?thesis
  proof (cases tr)
    case Continue
    with assms Some tp fr show ?thesis by (auto simp: for_body_def)
  next
    case (Raised err)
    show ?thesis
    proof (cases "is_caught err")
      case True
      with Raised assms Some tp have "except_clause ec q' err st1 = (r, st')"
        by (simp add: for_body_def)
      from except_clause_other_key [OF this] fr show ?thesis by auto
    next
      case False
      with Raised assms Some tp fr show ?thesis by (auto simp: for_body_def)
    qed
  next
    case (Completed inst)
    with assms Some tp have ec: "else_clause target q' inst st1 = (r, st')"
      by (simp add: for_body_def)
    from else_clause_other_key [OF ec assms(2)] else_clause_frame [OF ec] fr
    show ?thesis by auto
  qed
qed

lemma run_pass_other_keys:
  "run_pass fac target built ec names st = (r, st') \<Longrightarrow> q \<notin> set names \<Longrightarrow>
     map_of (xsd_globals st') q = map_of (xsd_globals st) q \<and>
     calls_for q (calls st') = calls_for q (calls st) \<and>
     set (missing st') \<subseteq> set names \<union> set (missing st)"
proof (induction names arbitrary: st)
  case Nil
  then show ?case by simp
next
  case (Cons q' qs)
  obtain r1 st1 where fb: "for_body fac target built ec q' st = (r1, st1)"
    by (cases "for_body fac target built ec q' st")
  from Cons.prems(2) have ne: "q \<noteq> q'" "q \<notin> set qs" by auto
  note f1 = for_body_other_key [OF fb ne(1)]
  show ?case
  proof (cases r1)
    case None
    with Cons.prems(1) fb have "run_pass fac target built ec qs st1 = (r, st')" by simp
    from Cons.IH [OF this ne(2)] f1 show ?thesis by auto
  next
    case (Some err)
    with Cons.prems(1) fb f1 show ?thesis by auto
  qed
qed

lemma while_loop_other_keys:
  "while_loop fac target built names ec st = (r, st') \<Longrightarrow> q \<notin> set names \<Longrightarrow>
     map_of (xsd_globals st') q = map_of (xsd_globals st) q \<and>
     calls_for q (calls st') = calls_for q (calls st)"
proof (induction fac target built names ec st rule: while_loop.induct)
  case (1 fac target built names ec st)
  let ?st0 = "st\<lparr>i_var := i_var st + 1, missing := [], errors := []\<rparr>"
  obtain r1 st1 where rp: "run_pass fac target built ec names ?st0 = (r1, st1)"
    by (cases "run_pass fac target built ec names ?st0")
  from run_pass_other_keys [OF rp "1.prems"(2)]
  have fr: "map_of (xsd_globals st1) q = map_of (xsd_globals st) q"
    "calls_for q (calls st1) = calls_for q (calls st)" "set (missing st1) \<subseteq> set names"
    by simp_all
  show ?case
  proof (cases r1)
    case (Some err)
    with rp "1.prems"(1) have "st' = st1"
      by (auto simp: while_loop.simps [of fac target built names ec st])
    with fr show ?thesis by simp
  next
    case None
    note rp' = rp [unfolded None]
    show ?thesis
    proof (cases "missing st1 = []")
      case True
      with rp' "1.prems"(1) have "st' = st1"
        by (auto simp: while_loop.simps [of fac target built names ec st])
      with fr show ?thesis by simp
    next
      case False
      with rp' "1.prems"(1)
      have rec: "while_loop fac target built (missing st1) (length (missing st1)) st1 = (r, st')"
        by (simp add: while_loop.simps [of fac target built names ec st])
      from fr(3) "1.prems"(2) have "q \<notin> set (missing st1)" by auto
      from "1.IH" [OF rp' [symmetric] refl False rec this] fr show ?thesis by simp
    qed
  qed
qed

lemma run_pass_append:
  "run_pass fac target built ec (xs @ ys) st =
     (case run_pass fac target built ec xs st of
        (Some err, st1) \<Rightarrow> (Some err, st1)
      | (None, st1) \<Rightarrow> run_pass fac target built ec ys st1)"
  by (induction xs arbitrary: st) (auto split: prod.splits option.splits)

lemma calls_for_threaded_calls:
  "calls_for q (threaded_calls q decls prev xs) = threaded_calls q decls prev xs"
  by (induction q decls prev xs rule: threaded_calls.induct) (auto simp: calls_for_def)

text \<open>A chain in the map of a builder: the calls made for its key over all the passes
  are the threaded calls, and the last instance is stored.\<close>

lemma chain_resolved_by_calls:
  assumes "map_of m q = Some (Chain (map (\<lambda>(e, s). Raw e s) decls))"
    and "decls \<noteq> []"
    and "\<forall>(e, s) \<in> set decls. tag e = target"
    and "always_succeeds fac q decls"
    and "distinct (set_order (remdups (map fst m)))"
    and "q \<in> set (set_order (remdups (map fst m)))"
    and "build_xsd_map set_order fac target built m w = (None, st')"
  shows "\<exists>xs. length xs = length decls \<and>
           calls_for q (calls st') = threaded_calls q decls None xs \<and>
           map_of (xsd_globals st') q = Some (Resolved (last xs))"
proof -
  let ?names = "set_order (remdups (map fst m))"
  let ?st = "initial_state m w"
  let ?st0 = "?st\<lparr>i_var := i_var ?st + 1, missing := [], errors := []\<rparr>"
  from assms(6) obtain pre post where sp: "?names = pre @ q # post"
    by (meson split_list)
  with assms(5) have nin: "q \<notin> set pre" "q \<notin> set post" by auto
  obtain r1 st1 where rp: "run_pass fac target built 0 ?names ?st0 = (r1, st1)"
    by (cases "run_pass fac target built 0 ?names ?st0")
  from assms(7) rp have r1: "r1 = None"
    by (cases r1) (auto simp: build_xsd_map_def while_loop.simps [of fac target built ?names])
  obtain ra sa where pa: "run_pass fac target built 0 pre ?st0 = (ra, sa)"
    by (cases "run_pass fac target built 0 pre ?st0")
  from rp r1 sp pa have ra: "ra = None"
    by (cases ra) (auto simp: run_pass_append)
  obtain rb sb where pb: "for_body fac target built 0 q sa = (rb, sb)"
    by (cases "for_body fac target built 0 q sa")
  from run_pass_other_keys [OF pa nin(1)]
  have fa: "map_of (xsd_globals sa) q = map_of m q" "calls_for q (calls sa) = []"
    "set (missing sa) \<subseteq> set pre"
    by (simp_all add: initial_state_def calls_for_def)
  from for_body_chain_succeeds [OF _ assms(2,4,3), of sa built 0] fa(1) assms(1) pb
  obtain xs where b: "rb = None" "length xs = length decls"
    "calls sb = calls sa @ threaded_calls q decls None xs"
    "map_of (xsd_globals sb) q = Some (Resolved (last xs))" "missing sb = missing sa"
    by auto
  note own = calls_for_threaded_calls [of q decls None xs]
  from rp r1 sp pa ra pb b(1) have pc: "run_pass fac target built 0 post sb = (None, st1)"
    by (simp add: run_pass_append)
  from run_pass_other_keys [OF pc nin(2)] b fa own
  have fc: "map_of (xsd_globals st1) q = Some (Resolved (last xs))"
    "calls_for q (calls st1) = threaded_calls q decls None xs"
    "q \<notin> set (missing st1)"
    using nin by (auto simp: calls_for_def)
  have "map_of (xsd_globals st') q = Some (Resolved (last xs)) \<and>
        calls_for q (calls st') = threaded_calls q decls None xs"
  proof (cases "missing st1 = []")
    case True
    with assms(7) rp r1 have "st' = st1"
      by (auto simp: build_xsd_map_def while_loop.simps [of fac target built ?names])
    with fc show ?thesis by simp
  next
    case False
    with assms(7) rp r1
    have "while_loop fac target built (missing st1) (length (missing st1)) st1 = (None, st')"
      by (auto simp: build_xsd_map_def while_loop.simps [of fac target built ?names])
    from while_loop_other_keys [OF this fc(3)] fc show ?thesis by simp
  qed
  with b(2) show ?thesis by blast
qed

text \<open>
  C6. Let a key be new to the map, let the loader give it \<open>N\<close> declarations, at least
  two (they form a chain: the declarations found under the roots of the schemas first,
  then the redefinitions, both in the order of the schemas; all of them carry the tag of
  the loader, which is the target tag of the builder), and let the factory succeed on
  each of them, with the key as the name. When \<open>build_xsd_map\<close> returns, the calls of the
  factory it has made for this key, over all its passes, are exactly \<open>N\<close>: one for each
  declaration, in the order of the chain, the first without a previous instance and
  every other one with the instance the call before it returned; and the value of the
  key in the map is the instance the last call returned.
\<close>

theorem chain_resolved_in_load_order:
  assumes "load_xsd_globals query get_attr (iterfind_xsd query target) built m schemas = (None, m1)"
    and "map_of m q = None"
    and "decls = declared_for get_attr (iterfind_xsd query target) built schemas q @
                 redefined_for query get_attr (iterfind_xsd query target) built schemas q"
    and "2 \<le> length decls"
    and "always_succeeds fac q decls"
    and "distinct (set_order (remdups (map fst m1)))"
    and "q \<in> set (set_order (remdups (map fst m1)))"
    and "build_xsd_map set_order fac target built m1 w = (None, st')"
  shows "\<exists>xs. length xs = length decls \<and>
           calls_for q (calls st') = threaded_calls q decls None xs \<and>
           map_of (xsd_globals st') q = Some (Resolved (last xs))"
proof -
  from load_xsd_globals_links [OF assms(1), of q] assms(2)
  have "links_of (map_of m1 q) = map (\<lambda>(e, s). Raw e s) decls" by (simp add: assms(3))
  from links_of_chain [OF this] assms(4)
  have c: "map_of m1 q = Some (Chain (map (\<lambda>(e, s). Raw e s) decls))" by simp
  from assms(4) have ne: "decls \<noteq> []" by auto
  have tags: "\<forall>(e, s) \<in> set decls. tag e = target"
  proof (rule ballI, rule prod.case_eq_if [THEN iffD2])
    fix d assume "d \<in> set decls"
    then have "d \<in> set (declared_for get_attr (iterfind_xsd query target) built schemas q) \<or>
               d \<in> set (redefined_for query get_attr (iterfind_xsd query target) built schemas q)"
      by (simp add: assms(3))
    then show "tag (fst d) = target"
    proof
      assume "d \<in> set (declared_for get_attr (iterfind_xsd query target) built schemas q)"
      then have "(fst d, snd d) \<in>
          set (declared_for get_attr (iterfind_xsd query target) built schemas q)" by simp
      from declared_tags [OF this] show ?thesis .
    next
      assume "d \<in> set (redefined_for query get_attr (iterfind_xsd query target) built schemas q)"
      then have "(fst d, snd d) \<in>
          set (redefined_for query get_attr (iterfind_xsd query target) built schemas q)" by simp
      from redefined_tags [OF this] show ?thesis .
    qed
  qed
  from chain_resolved_by_calls [OF c ne tags assms(5,6,7,8)] show ?thesis .
qed

text \<open>A complex type and its redefinition, the redefining schema first in the list: the
  original is built first, the redefinition is built from it, and the map holds the
  instance of the redefinition.\<close>

theorem chain_resolved_in_load_order_witness:
  "calls_for (''urn:a'', ''T'')
     (calls (snd (build_xsd_map (\<lambda>ks. ks) ready_factory XSD_COMPLEX_TYPE_TAG (\<lambda>s. False)
        loaded_types 0))) =
     [((''urn:a'', ''T''), type_t_original, base_schema, None,
        Inr ((''urn:a'', ''T''), \<lparr>elem = Some type_t_original, schema = base_schema, ident = 0\<rparr>)),
      ((''urn:a'', ''T''), type_t_redefined, redefining_schema,
        Some \<lparr>elem = Some type_t_original, schema = base_schema, ident = 0\<rparr>,
        Inr ((''urn:a'', ''T''), \<lparr>elem = Some type_t_redefined, schema = redefining_schema, ident = 1\<rparr>))] \<and>
   map_of (xsd_globals (snd (build_xsd_map (\<lambda>ks. ks) ready_factory XSD_COMPLEX_TYPE_TAG (\<lambda>s. False)
        loaded_types 0))) (''urn:a'', ''T'') =
     Some (Resolved \<lparr>elem = Some type_t_redefined, schema = redefining_schema, ident = 1\<rparr>)"
proof -
  let ?q = "(''urn:a'', ''T'')"
  let ?ff = "iterfind_xsd children_by_tag XSD_COMPLEX_TYPE_TAG"
  let ?decls = "[(type_t_original, base_schema), (type_t_redefined, redefining_schema)]"
  let ?B = "build_xsd_map (\<lambda>ks. ks) ready_factory XSD_COMPLEX_TYPE_TAG (\<lambda>s. False) loaded_types 0"
  have h1: "load_xsd_globals children_by_tag attribute_of ?ff (\<lambda>s. False) []
      [redefining_schema, base_schema] = (None, loaded_types)"
    by code_simp
  have h2: "map_of ([] :: xsd_map) ?q = None" by simp
  have h3: "?decls = declared_for attribute_of ?ff (\<lambda>s. False) [redefining_schema, base_schema] ?q @
      redefined_for children_by_tag attribute_of ?ff (\<lambda>s. False) [redefining_schema, base_schema] ?q"
    by code_simp
  have h4: "2 \<le> length ?decls" by simp
  have h5: "always_succeeds ready_factory ?q ?decls"
    by (auto simp: always_succeeds_def ready_factory_def name_of_elem_def
          type_t_original_def type_t_redefined_def base_schema_def redefining_schema_def)
  have h6: "distinct (remdups (map fst loaded_types))" by simp
  have h7: "?q \<in> set (remdups (map fst loaded_types))" by code_simp
  have h8: "?B = (None, snd ?B)" by code_simp
  from chain_resolved_in_load_order [of children_by_tag attribute_of XSD_COMPLEX_TYPE_TAG
      "\<lambda>s. False" "[]" "[redefining_schema, base_schema]" loaded_types ?q ?decls ready_factory
      "\<lambda>ks. ks" 0 "snd ?B", OF h1 h2 h3 h4 h5 h6 h7 h8]
  obtain xs where x: "length xs = length ?decls"
    "calls_for ?q (calls (snd ?B)) = threaded_calls ?q ?decls None xs"
    "map_of (xsd_globals (snd ?B)) ?q = Some (Resolved (last xs))"
    by blast
  have c: "calls_for ?q (calls (snd ?B)) =
     [(?q, type_t_original, base_schema, None,
        Inr (?q, \<lparr>elem = Some type_t_original, schema = base_schema, ident = 0\<rparr>)),
      (?q, type_t_redefined, redefining_schema,
        Some \<lparr>elem = Some type_t_original, schema = base_schema, ident = 0\<rparr>,
        Inr (?q, \<lparr>elem = Some type_t_redefined, schema = redefining_schema, ident = 1\<rparr>))]"
    by code_simp
  from x(1) obtain x1 x2 where xs: "xs = [x1, x2]"
    by (cases xs; cases "tl xs") auto
  from x(2) c xs have "x2 = \<lparr>elem = Some type_t_redefined, schema = redefining_schema, ident = 1\<rparr>"
    by simp
  with x(3) xs c show ?thesis by simp
qed

section \<open>Properties of the build: only instances are left\<close>

lemma all_resolved_iff:
  "all_resolved m = (\<forall>k v. map_of m k = Some v \<longrightarrow> is_resolved v)"
proof
  assume a: "all_resolved m"
  show "\<forall>k v. map_of m k = Some v \<longrightarrow> is_resolved v"
  proof (intro allI impI)
    fix k v assume kv: "map_of m k = Some v"
    then have "k \<in> set (map fst m)" by (metis map_of_eq_None_iff option.distinct(1) set_map)
    with a kv show "is_resolved v" by (auto simp: all_resolved_def list_all_iff)
  qed
next
  assume a: "\<forall>k v. map_of m k = Some v \<longrightarrow> is_resolved v"
  show "all_resolved m"
    unfolding all_resolved_def list_all_iff
  proof
    fix k assume "k \<in> set (map fst m)"
    then obtain v where kv: "map_of m k = Some v"
      by (metis map_of_eq_None_iff not_None_eq set_map)
    with a have "is_resolved v" by blast
    with kv show "case map_of m k of None \<Rightarrow> False | Some v \<Rightarrow> is_resolved v" by simp
  qed
qed

lemma is_resolved_buildable: "is_resolved v \<Longrightarrow> buildable_entry tg v"
  by (cases v) auto

lemma all_resolved_buildable: "all_resolved m \<Longrightarrow> buildable tg m"
  by (auto simp: all_resolved_iff buildable_def intro: is_resolved_buildable)

lemma call_factory_vars:
  "call_factory fac q e s prev st = (Inr x, st') \<Longrightarrow>
     res_qname_var st' \<noteq> None \<and> elem_var st' = elem_var st \<and> xsd_globals st' = xsd_globals st"
  by (auto simp: call_factory_def split: prod.splits sum.splits)

lemma walk_chain_buildable:
  assumes "walk_chain fac tg q obj rest inst st = (tr, st')"
    and "list_all (raw_with_tag tg) rest"
    and "rest \<noteq> [] \<or> (inst \<noteq> None \<and> (\<exists>e. elem_var st = Some (Some e) \<and> tag e = tg) \<and>
           res_qname_var st \<noteq> None)"
    and "map_of (xsd_globals st) q = Some (Chain obj) \<or>
         (\<exists>x. map_of (xsd_globals st) q = Some (Chain (Inst x # tl obj)))"
    and "obj \<noteq> []"
  shows "(\<exists>h. map_of (xsd_globals st') q = Some (Chain (h # tl obj)) \<and>
            (h = hd obj \<or> (\<exists>x. h = Inst x))) \<and>
         (case tr of
            Completed i \<Rightarrow> i \<noteq> None \<and> (\<exists>e. elem_var st' = Some (Some e) \<and> tag e = tg) \<and>
               res_qname_var st' \<noteq> None
          | Continue \<Rightarrow> False
          | Raised err \<Rightarrow> True)"
  using assms
proof (induction fac tg q obj rest inst st rule: walk_chain.induct)
  case (1 fac target q obj inst st)
  then show ?case by (cases obj) auto
next
  case (2 fac target q obj x rest inst st)
  then show ?case by simp
next
  case (3 fac target q obj d rest inst st)
  then show ?case by simp
next
  case (4 fac target q obj e s rest inst st)
  from "4.prems"(2) have tg: "tag e = target" and rest: "list_all (raw_with_tag target) rest"
    by simp_all
  let ?st1 = "st\<lparr>elem_var := Some (Some e)\<rparr>"
  obtain r2 st2 where cf: "call_factory fac q e s inst ?st1 = (r2, st2)"
    by (cases "call_factory fac q e s inst ?st1")
  from "4.prems"(5) obtain h0 t0 where obj: "obj = h0 # t0" by (cases obj) auto
  show ?case
  proof (cases r2)
    case (Inl err)
    with "4.prems"(1) tg cf have "tr = Raised err" "st' = st2" by (simp_all add: Let_def)
    moreover from call_factory_frame [OF cf] have "xsd_globals st2 = xsd_globals st" by simp
    ultimately show ?thesis using "4.prems"(4) obj by auto
  next
    case (Inr x)
    let ?obj' = "obj[0 := Inst x]"
    let ?st3 = "st2\<lparr>xsd_globals := AList.update q (Chain ?obj') (xsd_globals st2)\<rparr>"
    from "4.prems"(1) tg cf Inr have
      w: "walk_chain fac target q ?obj' rest (Some x) ?st3 = (tr, st')"
      by (simp add: Let_def)
    from call_factory_vars [OF cf [unfolded Inr]]
    have v: "res_qname_var st2 \<noteq> None" "elem_var st2 = Some (Some e)" by simp_all
    have p3: "rest \<noteq> [] \<or> (Some x \<noteq> None \<and> (\<exists>e. elem_var ?st3 = Some (Some e) \<and> tag e = target) \<and>
           res_qname_var ?st3 \<noteq> None)"
      using v tg by simp
    have p4: "map_of (xsd_globals ?st3) q = Some (Chain ?obj') \<or>
         (\<exists>x. map_of (xsd_globals ?st3) q = Some (Chain (Inst x # tl ?obj')))"
      by (simp add: update_conv')
    have p5: "?obj' \<noteq> []" using obj by simp
    have tl: "tl ?obj' = tl obj" "hd ?obj' = Inst x" using obj by simp_all
    from "4.IH" [OF refl _ cf [symmetric] Inr refl w rest p3 p4 p5] tg
    show ?thesis unfolding tl by auto
  qed
qed


lemma try_part_buildable:
  assumes "buildable_entry tg v" "map_of (xsd_globals st) q = Some v"
    and "try_part fac tg built q v st = (tr, st1)"
  shows "case tr of
           Continue \<Rightarrow> xsd_globals st1 = xsd_globals st \<and> is_resolved v
         | Raised err \<Rightarrow> (\<exists>v'. map_of (xsd_globals st1) q = Some v' \<and> buildable_entry tg v' \<and>
              (is_resolved v \<longrightarrow> is_resolved v'))
         | Completed i \<Rightarrow> i \<noteq> None \<and> (\<exists>e. elem_var st1 = Some (Some e) \<and> tag e = tg) \<and>
              res_qname_var st1 \<noteq> None"
proof (cases v)
  case (Resolved b)
  show ?thesis
  proof (cases "elem b")
    case None
    with Resolved assms(3) show ?thesis by (auto simp: try_part_def)
  next
    case (Some e)
    show ?thesis
    proof (cases "tag e \<noteq> tg \<or> built (schema b)")
      case True
      with Some Resolved assms(3) show ?thesis by (auto simp: try_part_def)
    next
      case False
      let ?st0 = "st\<lparr>elem_var := Some (Some e)\<rparr>"
      obtain r2 st2 where cf: "call_factory fac q e (schema b) (Some b) ?st0 = (r2, st2)"
        by (cases "call_factory fac q e (schema b) (Some b) ?st0")
      show ?thesis
      proof (cases r2)
        case (Inl err)
        with cf Some False Resolved assms(3) have "tr = Raised err" "st1 = st2"
          by (simp_all add: try_part_def)
        with call_factory_frame [OF cf] assms(2) Resolved show ?thesis by simp
      next
        case (Inr x)
        with cf Some False Resolved assms(3) have "tr = Completed (Some x)" "st1 = st2"
          by (simp_all add: try_part_def)
        with call_factory_vars [OF cf [unfolded Inr]] False show ?thesis by simp
      qed
    qed
  qed
next
  case (Single e s)
  with assms(1) have tg: "tag e = tg" by simp
  let ?st0 = "st\<lparr>elem_var := Some (Some e)\<rparr>"
  obtain r2 st2 where cf: "call_factory fac q e s None ?st0 = (r2, st2)"
    by (cases "call_factory fac q e s None ?st0")
  show ?thesis
  proof (cases r2)
    case (Inl err)
    with cf tg Single assms(3) have "tr = Raised err" "st1 = st2"
      by (simp_all add: try_part_def)
    with call_factory_frame [OF cf] assms(2) Single tg show ?thesis by simp
  next
    case (Inr x)
    with cf tg Single assms(3) have "tr = Completed (Some x)" "st1 = st2"
      by (simp_all add: try_part_def)
    with call_factory_vars [OF cf [unfolded Inr]] tg show ?thesis by simp
  qed
next
  case (Chain links)
  with assms(1) obtain l0 l1 rest where links: "links = l0 # l1 # rest"
    and h: "head_ok tg l0" and t: "list_all (raw_with_tag tg) (l1 # rest)"
    by (cases links; cases "tl links") auto
  have m: "map_of (xsd_globals st) q = Some (Chain links) \<or>
         (\<exists>x. map_of (xsd_globals st) q = Some (Chain (Inst x # tl links)))"
    using assms(2) Chain by simp
  have ne: "links \<noteq> []" using links by simp
  {
    fix inst walked
    assume w: "walk_chain fac tg q links walked inst st = (tr, st1)"
      and a: "list_all (raw_with_tag tg) walked" and n: "walked \<noteq> []"
    from walk_chain_buildable [OF w a _ m ne] n
    obtain hh where r: "map_of (xsd_globals st1) q = Some (Chain (hh # tl links))"
        "hh = hd links \<or> (\<exists>x. hh = Inst x)"
      and c: "case tr of
            Completed i \<Rightarrow> i \<noteq> None \<and> (\<exists>e. elem_var st1 = Some (Some e) \<and> tag e = tg) \<and>
               res_qname_var st1 \<noteq> None
          | Continue \<Rightarrow> False
          | Raised err \<Rightarrow> True"
      by auto
    from r(2) h links have "head_ok tg hh" by auto
    with t links have "buildable_entry tg (Chain (hh # tl links))" by simp
    with r(1) c Chain have ?thesis by (cases tr) auto
  }
  note res = this
  show ?thesis
  proof (cases l0)
    case (Inst x)
    with Chain links assms(3) have "walk_chain fac tg q links (l1 # rest) (Some x) st = (tr, st1)"
      by (simp add: try_part_def del: walk_chain.simps)
    from res [OF this t] show ?thesis by simp
  next
    case (Raw e s)
    with Chain links assms(3) have "walk_chain fac tg q links links None st = (tr, st1)"
      by (simp add: try_part_def del: walk_chain.simps)
    moreover from Raw h t links have "list_all (raw_with_tag tg) links" by simp
    ultimately show ?thesis using res ne by blast
  next
    case (Junk d)
    with h show ?thesis by simp
  qed
next
  case (Other d)
  with assms(1) show ?thesis by simp
qed

lemma else_clause_stores:
  "else_clause tg q (Some x) st1 = (None, st') \<Longrightarrow> elem_var st1 = Some (Some e) \<Longrightarrow>
   tag e = tg \<Longrightarrow> xsd_globals st' = AList.update q (Resolved x) (xsd_globals st1)"
  by (auto simp: else_clause_def split: option.splits if_splits)

lemma except_clause_defers:
  "except_clause ec q err st1 = (None, st') \<Longrightarrow>
     xsd_globals st' = xsd_globals st1 \<and> missing st' = missing st1 @ [q]"
  by (auto simp: except_clause_def defer_key_def Let_def split: option.splits if_splits)

lemma for_body_buildable:
  assumes "buildable tg (xsd_globals st)" "for_body fac tg built ec q st = (None, st')"
  shows "(\<exists>v'. map_of (xsd_globals st') q = Some v' \<and> buildable_entry tg v' \<and>
            (is_resolved v' \<or> missing st' = missing st @ [q])) \<and>
         (\<forall>v. map_of (xsd_globals st) q = Some v \<and> is_resolved v \<longrightarrow>
            (\<exists>v'. map_of (xsd_globals st') q = Some v' \<and> is_resolved v'))"
proof -
  from assms(2) obtain v where v: "map_of (xsd_globals st) q = Some v"
    by (cases "map_of (xsd_globals st) q") (auto simp: for_body_def)
  with assms(1) have bv: "buildable_entry tg v" unfolding buildable_def by blast
  obtain tr st1 where tp: "try_part fac tg built q v st = (tr, st1)"
    by (cases "try_part fac tg built q v st")
  note t = try_part_buildable [OF bv v tp]
  note fr = try_part_frame [OF tp]
  show ?thesis
  proof (cases tr)
    case Continue
    with assms(2) v tp have "st' = st1" by (simp add: for_body_def)
    with t Continue v bv show ?thesis by auto
  next
    case (Raised err)
    with assms(2) v tp have ex: "except_clause ec q err st1 = (None, st')"
      by (auto simp: for_body_def split: if_splits)
    from except_clause_defers [OF ex] t Raised fr v show ?thesis by auto
  next
    case (Completed i)
    with t obtain x e where i: "i = Some x" and e: "elem_var st1 = Some (Some e)" "tag e = tg"
      by auto
    from assms(2) v tp Completed i have "else_clause tg q (Some x) st1 = (None, st')"
      by (simp add: for_body_def)
    from else_clause_stores [OF this e] show ?thesis by (simp add: update_conv')
  qed
qed

lemma for_body_invariant:
  assumes "buildable tg (xsd_globals st)" "for_body fac tg built ec q st = (None, st')"
  shows "buildable tg (xsd_globals st') \<and>
         (\<forall>k. settled k (xsd_globals st) \<longrightarrow> settled k (xsd_globals st')) \<and>
         (settled q (xsd_globals st') \<or> q \<in> set (missing st')) \<and>
         set (missing st) \<subseteq> set (missing st')"
proof -
  note b = for_body_buildable [OF assms]
  have other: "\<And>k. k \<noteq> q \<Longrightarrow> map_of (xsd_globals st') k = map_of (xsd_globals st) k"
    using for_body_other_key [OF assms(2)] by blast
  from assms(2) obtain v where v: "map_of (xsd_globals st) q = Some v"
    by (cases "map_of (xsd_globals st) q") (auto simp: for_body_def)
  have 1: "buildable tg (xsd_globals st')"
    unfolding buildable_def
  proof (intro allI impI)
    fix k v' assume kv: "map_of (xsd_globals st') k = Some v'"
    show "buildable_entry tg v'"
    proof (cases "k = q")
      case True
      with b kv show ?thesis by auto
    next
      case False
      with other [of k] kv assms(1) show ?thesis unfolding buildable_def by metis
    qed
  qed
  have 2: "\<forall>k. settled k (xsd_globals st) \<longrightarrow> settled k (xsd_globals st')"
  proof (intro allI impI)
    fix k assume s: "settled k (xsd_globals st)"
    show "settled k (xsd_globals st')"
    proof (cases "k = q")
      case True
      with s v b show ?thesis by (auto simp: settled_def)
    next
      case False
      with other s show ?thesis by (simp add: settled_def)
    qed
  qed
  have 3: "settled q (xsd_globals st') \<or> q \<in> set (missing st')"
    using b by (auto simp: settled_def)
  from for_body_missing [OF assms(2)] have 4: "set (missing st) \<subseteq> set (missing st')" by auto
  from 1 2 3 4 show ?thesis by blast
qed

lemma run_pass_invariant:
  "buildable tg (xsd_globals st) \<Longrightarrow> run_pass fac tg built ec names st = (None, st') \<Longrightarrow>
     buildable tg (xsd_globals st') \<and>
     (\<forall>k. settled k (xsd_globals st) \<longrightarrow> settled k (xsd_globals st')) \<and>
     (\<forall>q \<in> set names. settled q (xsd_globals st') \<or> q \<in> set (missing st')) \<and>
     set (missing st) \<subseteq> set (missing st')"
proof (induction names arbitrary: st)
  case Nil
  then show ?case by simp
next
  case (Cons q qs)
  from Cons.prems(2) obtain st1 where fb: "for_body fac tg built ec q st = (None, st1)"
    and rp: "run_pass fac tg built ec qs st1 = (None, st')"
    by (auto split: prod.splits option.splits)
  note i1 = for_body_invariant [OF Cons.prems(1) fb]
  from i1 have b1: "buildable tg (xsd_globals st1)" by simp
  note i2 = Cons.IH [OF b1 rp]
  from i1 i2 have "settled q (xsd_globals st') \<or> q \<in> set (missing st')" by blast
  with i1 i2 show ?case by (simp del: split_paired_All) blast
qed

lemma while_loop_all_settled:
  "buildable tg (xsd_globals st) \<Longrightarrow>
   (\<forall>k. k \<notin> set names \<longrightarrow> settled k (xsd_globals st)) \<Longrightarrow>
   while_loop fac tg built names ec st = (None, st') \<Longrightarrow>
     (\<forall>k. settled k (xsd_globals st'))"
proof (induction fac tg built names ec st rule: while_loop.induct)
  case (1 fac tg built names ec st)
  let ?st0 = "st\<lparr>i_var := i_var st + 1, missing := [], errors := []\<rparr>"
  obtain r1 st1 where rp: "run_pass fac tg built ec names ?st0 = (r1, st1)"
    by (cases "run_pass fac tg built ec names ?st0")
  from "1.prems"(3) rp have r1: "r1 = None"
    by (cases r1) (auto simp: while_loop.simps [of fac tg built names ec st])
  note rp' = rp [unfolded r1]
  from "1.prems"(1) have b0: "buildable tg (xsd_globals ?st0)" by simp
  note inv = run_pass_invariant [OF b0 rp']
  from inv "1.prems"(2) have rest: "\<forall>k. k \<notin> set names \<longrightarrow> settled k (xsd_globals st1)" by simp
  show ?case
  proof (cases "missing st1 = []")
    case True
    with rp' "1.prems"(3) have "st' = st1"
      by (auto simp: while_loop.simps [of fac tg built names ec st])
    with inv rest True show ?thesis by auto
  next
    case False
    with rp' "1.prems"(3)
    have rec: "while_loop fac tg built (missing st1) (length (missing st1)) st1 = (None, st')"
      by (simp add: while_loop.simps [of fac tg built names ec st])
    from inv rest have "\<forall>k. k \<notin> set (missing st1) \<longrightarrow> settled k (xsd_globals st1)" by auto
    from "1.IH" [OF rp' [symmetric] refl False _ this rec] inv show ?thesis by simp
  qed
qed

lemma settled_all_resolved: "(\<forall>k. settled k m) = all_resolved m"
  unfolding all_resolved_iff settled_def
  by (metis option.simps(4,5) option.exhaust)

lemma build_xsd_map_all_resolved:
  assumes "buildable tg m" "\<forall>ks. set ks \<subseteq> set (set_order ks)"
    and "build_xsd_map set_order fac tg built m w = (None, st')"
  shows "all_resolved (xsd_globals st')"
proof -
  have "\<forall>k. k \<notin> set (set_order (remdups (map fst m))) \<longrightarrow> settled k m"
  proof (intro allI impI)
    fix k assume "k \<notin> set (set_order (remdups (map fst m)))"
    with assms(2) have "k \<notin> set (remdups (map fst m))" by blast
    then have "map_of m k = None" by (simp add: map_of_eq_None_iff)
    then show "settled k m" by (simp add: settled_def)
  qed
  with assms(1) have "\<forall>k. settled k (xsd_globals st')"
    by (intro while_loop_all_settled [OF _ _ assms(3) [unfolded build_xsd_map_def]])
       (simp_all add: initial_state_def del: split_paired_All)
  then show ?thesis by (simp only: settled_all_resolved)
qed


lemma store_declaration_buildable:
  assumes "buildable tg m" "tag e = tg"
  shows "buildable tg (store_declaration qn e s m)"
  unfolding buildable_def
proof (intro allI impI)
  fix k v assume kv: "map_of (store_declaration qn e s m) k = Some v"
  show "buildable_entry tg v"
  proof (cases "k = qn")
    case False
    with kv have "map_of m k = Some v"
      by (auto simp: store_declaration_def update_conv' split: option.splits entry.splits)
    with assms(1) show ?thesis unfolding buildable_def by blast
  next
    case True
    show ?thesis
    proof (cases "map_of m qn")
      case None
      with kv True assms(2) show ?thesis by (auto simp: store_declaration_def update_conv')
    next
      case (Some old)
      with assms(1) have b: "buildable_entry tg old" unfolding buildable_def by blast
      show ?thesis
      proof (cases old)
        case (Resolved b)
        with Some kv True assms(2) show ?thesis by (auto simp: store_declaration_def update_conv')
      next
        case (Single e0 s0)
        with Some kv True assms(2) b show ?thesis by (auto simp: store_declaration_def update_conv')
      next
        case (Chain links)
        with b obtain l0 l1 rest where l: "links = l0 # l1 # rest"
          by (cases links; cases "tl links") auto
        with Chain Some kv True assms(2) b show ?thesis
          by (auto simp: store_declaration_def update_conv')
      next
        case (Other d)
        with b show ?thesis by simp
      qed
    qed
  qed
qed

lemma load_declarations_buildable:
  "buildable tg m \<Longrightarrow> \<forall>e \<in> set es. tag e = tg \<Longrightarrow>
   load_declarations get_attr s es m = (r, m') \<Longrightarrow> buildable tg m'"
proof (induction es arbitrary: m)
  case Nil
  then show ?case by simp
next
  case (Cons e es)
  show ?case
  proof (cases "get_attr e ''name''")
    case (Inl err)
    with Cons.prems show ?thesis by simp
  next
    case (Inr name)
    let ?m1 = "store_declaration (get_qname (target_namespace s) name) e s m"
    from Cons.prems Inr have l: "load_declarations get_attr s es ?m1 = (r, m')" by simp
    from Cons.prems have "buildable tg ?m1" by (intro store_declaration_buildable) simp_all
    from Cons.IH [OF this _ l] Cons.prems(2) show ?thesis by simp
  qed
qed

lemma stage_redefinitions_tags:
  "\<forall>(qn, e, s) \<in> set reds. tag e = tg \<Longrightarrow> \<forall>e \<in> set cs. tag e = tg \<Longrightarrow>
   stage_redefinitions get_attr s cs reds = (r, reds') \<Longrightarrow> \<forall>(qn, e, s) \<in> set reds'. tag e = tg"
proof (induction cs arbitrary: reds)
  case Nil
  then show ?case by simp
next
  case (Cons c cs)
  show ?case
  proof (cases "get_attr c ''name''")
    case (Inl err)
    with Cons.prems show ?thesis by simp
  next
    case (Inr name)
    let ?reds1 = "reds @ [(get_qname (target_namespace s) name, c, s)]"
    from Cons.prems Inr have l: "stage_redefinitions get_attr s cs ?reds1 = (r, reds')" by simp
    from Cons.prems have "\<forall>(qn, e, s) \<in> set ?reds1. tag e = tg" by auto
    from Cons.IH [OF this _ l] Cons.prems(2) show ?thesis by simp
  qed
qed

lemma scan_schemas_buildable:
  "buildable tg m \<Longrightarrow> \<forall>(qn, e, s) \<in> set reds. tag e = tg \<Longrightarrow>
   \<forall>e. \<forall>x \<in> set (filter_function e). tag x = tg \<Longrightarrow>
   scan_schemas query get_attr filter_function built schemas m reds = (r, m', reds') \<Longrightarrow>
     buildable tg m' \<and> (\<forall>(qn, e, s) \<in> set reds'. tag e = tg)"
proof (induction schemas arbitrary: m reds)
  case Nil
  then show ?case by simp
next
  case (Cons s ss)
  show ?case
  proof (cases "built s")
    case True
    with Cons.prems(4) have "scan_schemas query get_attr filter_function built ss m reds = (r, m', reds')"
      by simp
    from Cons.IH [OF Cons.prems(1,2,3) this] show ?thesis .
  next
    case False
    let ?cs = "concat (map filter_function (iterfind_xsd_redefine query (root s)))"
    obtain r1 reds1 where st: "stage_redefinitions get_attr s ?cs reds = (r1, reds1)"
      by (cases "stage_redefinitions get_attr s ?cs reds")
    from Cons.prems(3) have cs: "\<forall>e \<in> set ?cs. tag e = tg" by auto
    from stage_redefinitions_tags [OF Cons.prems(2) cs st]
    have t1: "\<forall>(qn, e, s) \<in> set reds1. tag e = tg" .
    show ?thesis
    proof (cases r1)
      case (Some err)
      with Cons.prems(4) False st have "m' = m" "reds' = reds1" by simp_all
      with Cons.prems(1) t1 show ?thesis by simp
    next
      case None
      obtain r2 m2 where ld: "load_declarations get_attr s (filter_function (root s)) m = (r2, m2)"
        by (cases "load_declarations get_attr s (filter_function (root s)) m")
      from Cons.prems(3) have "\<forall>e \<in> set (filter_function (root s)). tag e = tg" by simp
      from load_declarations_buildable [OF Cons.prems(1) this ld] have b2: "buildable tg m2" .
      show ?thesis
      proof (cases r2)
        case (Some err)
        with Cons.prems(4) False st None ld have "m' = m2" "reds' = reds1" by simp_all
        with b2 t1 show ?thesis by simp
      next
        case n2: None
        with Cons.prems(4) False st None ld
        have "scan_schemas query get_attr filter_function built ss m2 reds1 = (r, m', reds')"
          by simp
        from Cons.IH [OF b2 t1 Cons.prems(3) this] show ?thesis .
      qed
    qed
  qed
qed

lemma append_redefinitions_buildable:
  "buildable tg m \<Longrightarrow> \<forall>(qn, e, s) \<in> set reds. tag e = tg \<Longrightarrow>
   append_redefinitions reds m = (r, m') \<Longrightarrow> buildable tg m'"
proof (induction reds arbitrary: m)
  case Nil
  then show ?case by simp
next
  case (Cons red rest)
  obtain qn e s where red: "red = (qn, e, s)" by (cases red)
  show ?case
  proof (cases "map_of m qn")
    case None
    with Cons.prems red show ?thesis by simp
  next
    case (Some old)
    with Cons.prems(3) red
    have a: "append_redefinitions rest (store_declaration qn e s m) = (r, m')" by simp
    from Cons.prems red have "buildable tg (store_declaration qn e s m)"
      by (intro store_declaration_buildable) simp_all
    from Cons.IH [OF this _ a] Cons.prems(2) show ?thesis by simp
  qed
qed

lemma load_xsd_globals_buildable:
  assumes "all_resolved m"
    and "load_xsd_globals query get_attr (iterfind_xsd query tg) built m schemas = (r, m')"
  shows "buildable tg m'"
proof -
  obtain r1 m1 reds where sc:
    "scan_schemas query get_attr (iterfind_xsd query tg) built schemas m [] = (r1, m1, reds)"
    by (cases "scan_schemas query get_attr (iterfind_xsd query tg) built schemas m []") auto
  from scan_schemas_buildable [OF all_resolved_buildable [OF assms(1)] _ iterfind_xsd_tags sc]
  have b: "buildable tg m1" "\<forall>(qn, e, s) \<in> set reds. tag e = tg" by simp_all
  show ?thesis
  proof (cases r1)
    case (Some err)
    with assms(2) sc b show ?thesis by (simp add: load_xsd_globals_def)
  next
    case None
    with assms(2) sc have "append_redefinitions reds m1 = (r, m')"
      by (simp add: load_xsd_globals_def)
    from append_redefinitions_buildable [OF b this] show ?thesis .
  qed
qed


lemma update_entries:
  "x \<in> set (AList.update k v d) \<Longrightarrow> x = (k, v) \<or> x \<in> set d"
  by (induction d) (auto split: if_splits)

lemma dict_update_entries:
  "x \<in> set (dict_update d other) \<Longrightarrow> x \<in> set d \<or> x \<in> set other"
proof (induction other arbitrary: d)
  case Nil
  then show ?case by (simp add: dict_update_def)
next
  case (Cons kv other)
  obtain k v where kv: "kv = (k, v)" by (cases kv)
  from Cons.prems kv have "x \<in> set (dict_update (AList.update k v d) other)"
    by (simp add: dict_update_def)
  from Cons.IH [OF this] update_entries [of x k v d] kv show ?case by auto
qed

lemma dict_update_resolved:
  "all_resolved d \<Longrightarrow> \<forall>(k, v) \<in> set other. is_resolved v \<Longrightarrow> all_resolved (dict_update d other)"
proof (induction other arbitrary: d)
  case Nil
  then show ?case by (simp add: dict_update_def)
next
  case (Cons kv other)
  obtain k v where kv: "kv = (k, v)" by (cases kv)
  from Cons.prems kv have "all_resolved (AList.update k v d)"
    unfolding all_resolved_iff by (auto simp: update_conv')
  from Cons.IH [OF this] Cons.prems(2) kv show ?case by (simp add: dict_update_def)
qed

lemma items_resolved:
  "all_resolved d \<Longrightarrow> \<forall>(k, v) \<in> set (items d). is_resolved v"
  unfolding all_resolved_iff items_def by (auto split: option.splits)

lemma items_of_distinct: "distinct (map fst d) \<Longrightarrow> items d = d"
proof (induction d)
  case Nil
  show ?case by (simp add: items_def)
next
  case (Cons kv d)
  obtain k v where kv: "kv = (k, v)" by (cases kv)
  from Cons.prems kv have k: "k \<notin> set (map fst d)" and dd: "distinct (map fst d)" by auto
  let ?F = "\<lambda>m k. case map_of m k of None \<Rightarrow> [] | Some v \<Rightarrow> [(k, v)]"
  have same: "map (?F (kv # d)) (remdups (map fst d)) = map (?F d) (remdups (map fst d))"
  proof (rule map_cong [OF refl])
    fix k' assume "k' \<in> set (remdups (map fst d))"
    with k have "k' \<noteq> k" by auto
    with kv show "?F (kv # d) k' = ?F d k'" by simp
  qed
  have first: "?F (kv # d) k = [(k, v)]" using kv by simp
  from k kv have "remdups (map fst (kv # d)) = k # remdups (map fst d)" by simp
  then have "items (kv # d) = ?F (kv # d) k @ concat (map (?F (kv # d)) (remdups (map fst d)))"
    by (simp only: items_def list.map concat.simps)
  also have "\<dots> = (k, v) # concat (map (?F d) (remdups (map fst d)))"
    by (simp only: same first append.simps)
  also have "\<dots> = kv # d"
    using Cons.IH [OF dd] kv by (simp only: items_def)
  finally show ?case .
qed

lemma update_from_groups_resolved:
  "all_resolved m \<Longrightarrow> update_from_groups iter_elements gs m = (r, m') \<Longrightarrow> all_resolved m'"
proof (induction gs arbitrary: m)
  case Nil
  then show ?case by simp
next
  case (Cons g gs)
  show ?case
  proof (cases g)
    case (Resolved b)
    let ?pairs = "map (\<lambda>(n, e). (n, Resolved e)) (iter_elements b)"
    have "\<forall>(k, v) \<in> set (dict_of ?pairs). is_resolved v"
    proof -
      have "\<And>x. x \<in> set (dict_of ?pairs) \<Longrightarrow> x \<in> set ?pairs"
        using dict_update_entries [of _ "[]" ?pairs] by (simp add: dict_of_def)
      then show ?thesis by fastforce
    qed
    from dict_update_resolved [OF Cons.prems(1) this] Cons.IH Cons.prems(2) Resolved
    show ?thesis by simp
  next
    case (Single e s)
    with Cons.prems show ?thesis by simp
  next
    case (Chain links)
    with Cons.prems show ?thesis by simp
  next
    case (Other d)
    with Cons.prems show ?thesis by simp
  qed
qed

lemma registry_resolved_set_field:
  "registry_resolved self \<Longrightarrow> all_resolved m \<Longrightarrow> registry_resolved (set_field f m self)"
  by (cases f) (simp_all add: registry_resolved_def)

lemma registry_resolved_get_field:
  "registry_resolved self \<Longrightarrow> all_resolved (get_field f self)"
  by (cases f) (simp_all add: registry_resolved_def)

lemma get_set_field [simp]: "get_field f (set_field f m self) = m"
  by (cases f) simp_all

lemma set_set_field [simp]: "set_field f m (set_field f m' self) = set_field f m self"
  by (cases f) simp_all

lemma set_field_frame [simp]:
  "built_flags (set_field f m self) = built_flags self"
  "iter_schemas (set_field f m self) = iter_schemas self"
  by (cases f; simp add: iter_schemas_def)+

lemma build_step_resolved:
  assumes "\<forall>ks. set ks \<subseteq> set (set_order ks)" "buildable tg (get_field f self)"
    and "registry_resolved (set_field f [] self)"
    and "build_step set_order fac tg f (self, w) = (None, self', w')"
  shows "registry_resolved self'"
proof -
  obtain r st where b: "build_xsd_map set_order (fac self) tg (built_flags self) (get_field f self) w = (r, st)"
    by (cases "build_xsd_map set_order (fac self) tg (built_flags self) (get_field f self) w")
  with assms(4) have r: "r = None" and s: "self' = set_field f (xsd_globals st) self"
    by (simp_all add: build_step_def)
  from build_xsd_map_all_resolved [OF assms(2,1) b [unfolded r]]
  have "all_resolved (xsd_globals st)" .
  from registry_resolved_set_field [OF assms(3) this, of f] s show ?thesis by simp
qed

lemma registry_resolved_blank:
  "registry_resolved self \<Longrightarrow> registry_resolved (set_field f [] self)"
  by (intro registry_resolved_set_field) (simp_all add: all_resolved_def)

lemma load_then_build_resolved:
  assumes "\<forall>ks. set ks \<subseteq> set (set_order ks)" "registry_resolved self"
    and "load_step query get_attr tg f (self, w) = (None, self1, w1)"
    and "build_step set_order fac tg f (self1, w1) = (None, self', w')"
  shows "registry_resolved self'"
proof -
  obtain r m where l: "load_xsd_globals query get_attr (iterfind_xsd query tg) (built_flags self)
             (get_field f self) (iter_schemas self) = (r, m)"
    by (cases "load_xsd_globals query get_attr (iterfind_xsd query tg) (built_flags self)
             (get_field f self) (iter_schemas self)")
  with assms(3) have s1: "self1 = set_field f m self" by (simp add: load_step_def)
  from load_xsd_globals_buildable [OF registry_resolved_get_field [OF assms(2)] l]
  have "buildable tg (get_field f self1)" using s1 by simp
  moreover from registry_resolved_blank [OF assms(2), of f] s1
  have "registry_resolved (set_field f [] self1)" by simp
  ultimately show ?thesis using build_step_resolved [OF assms(1) _ _ assms(4)] by blast
qed

lemma build_only_resolved:
  assumes "\<forall>ks. set ks \<subseteq> set (set_order ks)" "registry_resolved self"
    and "build_step set_order fac tg f (self, w) = (None, self', w')"
  shows "registry_resolved self'"
  using build_step_resolved [OF assms(1) _ _ assms(3)]
    all_resolved_buildable [OF registry_resolved_get_field [OF assms(2)]]
    registry_resolved_blank [OF assms(2)] by blast

lemma update_base_elements_resolved:
  assumes "registry_resolved self"
    and "update_base_elements iter_elements (self, w) = (None, self', w')"
  shows "registry_resolved self'"
proof -
  let ?m0 = "dict_update (base_elements self) (items (elements self))"
  obtain r m where u: "update_from_groups iter_elements (map snd (items (groups self))) ?m0 = (r, m)"
    by (cases "update_from_groups iter_elements (map snd (items (groups self))) ?m0")
  with assms(2) have s: "self' = self\<lparr>base_elements := m\<rparr>"
    by (simp add: update_base_elements_def)
  from assms(1) have "all_resolved ?m0"
    by (intro dict_update_resolved items_resolved) (simp_all add: registry_resolved_def)
  from update_from_groups_resolved [OF this u] assms(1) s show ?thesis
    by (simp add: registry_resolved_def)
qed

lemma mark_built_resolved:
  "registry_resolved self \<Longrightarrow> mark_built (self, w) = (None, self', w') \<Longrightarrow> registry_resolved self'"
  by (auto simp: mark_built_def registry_resolved_def)

lemma run_steps_cons:
  "run_steps (step # steps) x = (None, z) \<Longrightarrow>
     \<exists>y. step x = (None, y) \<and> run_steps steps y = (None, z)"
  by (auto split: prod.splits option.splits)

lemma new_registry_resolved:
  "\<forall>(k, v) \<in> set builtin. is_resolved v \<Longrightarrow> registry_resolved (new_registry builtin)"
  using dict_update_resolved [of "[]" builtin]
  by (simp add: registry_resolved_def new_registry_def all_resolved_def)

lemma clear_resolved:
  "\<forall>(k, v) \<in> set (builtin_types self). is_resolved v \<Longrightarrow>
     registry_resolved (clear self remove_schemas)"
  using dict_update_resolved [of "[]" "builtin_types self"]
  by (simp add: registry_resolved_def clear_def Let_def all_resolved_def)

text \<open>
  C2. If \<open>build()\<close> returns without raising, then in each of the six maps every key has a
  built instance as its value, never a tuple and never a list. The registry \<open>build()\<close>
  starts from is one whose maps hold built instances only: a new one and a cleared one,
  whose types are the built-in types (\<open>new_registry_resolved\<close>, \<open>clear_resolved\<close>), and, by
  this theorem, one that a \<open>build()\<close> that returned has left; after a \<open>build()\<close> that raised
  the caller has to \<open>clear()\<close> first. The schemas, their declarations, the factories and the
  state they work on are arbitrary, so the lists the loader makes are: those whose links
  carry different declaration tags too. (The order in which a builder walks the set of the
  keys is any order that leaves no key out.)
\<close>

theorem build_leaves_instances:
  assumes "\<forall>ks. set ks \<subseteq> set (set_order ks)"
    and "registry_resolved self"
    and "build set_order query get_attr iter_elements kwargs (self, w) = (None, self', w')"
  shows "registry_resolved self'"
proof -
  note lb = load_then_build_resolved [OF assms(1)]
  note bo = build_only_resolved [OF assms(1)]
  from assms(3) [unfolded build_def]
  obtain a1 b1 a2 b2 a3 b3 a4 b4 a5 b5 a6 b6 a7 b7 a8 b8 a9 b9 a10 b10 a11 b11 a12 b12
    a13 b13 a14 b14 a15 b15 a16 b16 where
    s1: "load_step query get_attr XSD_SIMPLE_TYPE_TAG TypesField (self, w) = (None, a1, b1)" and
    s2: "build_step set_order (kwargs ''simple_type_factory'' False) XSD_SIMPLE_TYPE_TAG TypesField (a1, b1) = (None, a2, b2)" and
    s3: "load_step query get_attr XSD_ATTRIBUTE_TAG AttributesField (a2, b2) = (None, a3, b3)" and
    s4: "build_step set_order (kwargs ''attribute_factory'' False) XSD_ATTRIBUTE_TAG AttributesField (a3, b3) = (None, a4, b4)" and
    s5: "load_step query get_attr XSD_ATTRIBUTE_GROUP_TAG AttributeGroupsField (a4, b4) = (None, a5, b5)" and
    s6: "build_step set_order (kwargs ''attribute_group_factory'' False) XSD_ATTRIBUTE_GROUP_TAG AttributeGroupsField (a5, b5) = (None, a6, b6)" and
    s7: "load_step query get_attr XSD_COMPLEX_TYPE_TAG TypesField (a6, b6) = (None, a7, b7)" and
    s8: "build_step set_order (kwargs ''complex_type_factory'' False) XSD_COMPLEX_TYPE_TAG TypesField (a7, b7) = (None, a8, b8)" and
    s9: "load_step query get_attr XSD_ELEMENT_TAG ElementsField (a8, b8) = (None, a9, b9)" and
    s10: "build_step set_order (kwargs ''element_factory'' False) XSD_ELEMENT_TAG ElementsField (a9, b9) = (None, a10, b10)" and
    s11: "load_step query get_attr XSD_GROUP_TAG GroupsField (a10, b10) = (None, a11, b11)" and
    s12: "build_step set_order (kwargs ''group_factory'' False) XSD_GROUP_TAG GroupsField (a11, b11) = (None, a12, b12)" and
    s13: "build_step set_order (kwargs ''group_factory'' True) XSD_GROUP_TAG GroupsField (a12, b12) = (None, a13, b13)" and
    s14: "build_step set_order (kwargs ''complex_type_factory'' True) XSD_COMPLEX_TYPE_TAG TypesField (a13, b13) = (None, a14, b14)" and
    s15: "build_step set_order (kwargs ''element_factory'' True) XSD_ELEMENT_TAG ElementsField (a14, b14) = (None, a15, b15)" and
    s16: "update_base_elements iter_elements (a15, b15) = (None, a16, b16)" and
    s17: "mark_built (a16, b16) = (None, self', w')"
    by (fastforce dest!: run_steps_cons)
  note r2 = lb [OF assms(2) s1 s2]
  note r4 = lb [OF r2 s3 s4]
  note r6 = lb [OF r4 s5 s6]
  note r8 = lb [OF r6 s7 s8]
  note r10 = lb [OF r8 s9 s10]
  note r12 = lb [OF r10 s11 s12]
  note r13 = bo [OF r12 s13]
  note r14 = bo [OF r13 s14]
  note r15 = bo [OF r14 s15]
  note r16 = update_base_elements_resolved [OF r15 s16]
  from mark_built_resolved [OF r16 s17] show ?thesis .
qed

text \<open>A schema that declares a simple type and a complex type under the same name \<open>Q\<close>,
  in a new registry: after the simple types are built and the complex types loaded, the
  value under \<open>Q\<close> is the list of the built simple type and the declaration of the complex
  type, two links with different tags. The build returns, every map holds instances only,
  and \<open>Q\<close> is the instance built from the complex type.\<close>

theorem build_leaves_instances_witness:
  "fst (example_build (clash_registry, 1)) = None \<and>
   registry_resolved (fst (snd (example_build (clash_registry, 1)))) \<and>
   map_of (types (fst (snd (example_build (clash_registry, 1))))) (''urn:q'', ''Q'') =
     Some (Resolved \<lparr>elem = Some complex_q, schema = clash_schema, ident = 1\<rparr>)"
proof -
  let ?X = "example_build (clash_registry, 1)"
  have r: "fst ?X = None" by code_simp
  then have h3: "build (\<lambda>ks. ks) children_by_tag attribute_of (\<lambda>g. []) example_options
      (clash_registry, 1) = (None, fst (snd ?X), snd (snd ?X))"
    unfolding example_build_def by (metis prod.collapse)
  have h1: "\<forall>ks :: qname list. set ks \<subseteq> set ((\<lambda>ks. ks) ks)" by simp
  have h2: "registry_resolved clash_registry"
    by (simp add: registry_resolved_def clash_registry_def new_registry_def all_resolved_def
          dict_update_def)
  have v: "map_of (types (fst (snd ?X))) (''urn:q'', ''Q'') =
     Some (Resolved \<lparr>elem = Some complex_q, schema = clash_schema, ident = 1\<rparr>)"
    by code_simp
  from build_leaves_instances [OF h1 h2 h3] r v show ?thesis by simp
qed

section \<open>Properties of the Declaration Builder: termination\<close>












subsection \<open>The exception that ends the loop\<close>

lemma last_raised_snoc [simp]:
  "last_raised (cs @ [(q, e, s, previous, res)]) =
     (case res of Inl err \<Rightarrow> Some err | Inr result \<Rightarrow> None)"
  by (simp add: last_raised_def)










lemma wrong_result_name_no_fault: "\<not> builder_fault wrong_result_name"
  by (simp add: builder_fault_def wrong_result_name_def)





end
